theory Spec2Isabelle
  imports Main "HOL-Library.Sublist" "HOL-Library.AList"
begin

section \<open>JavaScript strings and regular expressions\<close>

text \<open>
  A shallow embedding of \<^verbatim>\<open>packages/make-babel/util/index.js\<close> and of
  \<^verbatim>\<open>createApp\<close> in \<^verbatim>\<open>packages/make-babel/index.js\<close>.

  Strings are lists of 8-bit characters (the code units below 256 of a JavaScript
  string). The source matches its strings against regular expression literals; they are
  kept as values of the type \<open>rx\<close> and run by a backtracking matcher that returns every
  way to match, in the priority order of ECMAScript: a greedy quantifier tries the
  longest match first, an optional part is tried before it is skipped, and an optional
  part that matched the empty string is rejected. Quantifiers are applied to
  single-character classes only, as in the source. The dot matches every character but a
  line terminator; of the four line terminators of ECMAScript, line feed and carriage
  return are characters of the model.
\<close>

datatype js_error = TypeError | ReferenceError | ENOENT | EEXIST

datatype atom = Dot | NoneOf "char list"

fun accepts :: "atom \<Rightarrow> char \<Rightarrow> bool" where
  "accepts Dot x = (x \<noteq> CHR 0x0A \<and> x \<noteq> CHR 0x0D)"
| "accepts (NoneOf cs) x = (x \<notin> set cs)"

datatype rx =
    Str string
  | Many0 atom
  | Many1 atom
  | Seq rx rx
  | Alt rx rx
  | Opt rx
  | Group nat rx
  | Bol
  | Eol

type_synonym captures = "nat \<Rightarrow> string option"

text \<open>A matcher state: the index reached, the input left, the groups captured so far.\<close>

type_synonym mstate = "nat \<times> string \<times> captures"

fun many :: "atom \<Rightarrow> nat \<Rightarrow> string \<Rightarrow> captures \<Rightarrow> mstate list" where
  "many a p [] c = [(p, [], c)]"
| "many a p (x # xs) c =
     (if accepts a x then many a (Suc p) xs c else []) @ [(p, x # xs, c)]"

fun ms :: "rx \<Rightarrow> mstate \<Rightarrow> mstate list" where
  "ms (Str w) (p, s, c) =
     (if prefix w s then [(p + length w, drop (length w) s, c)] else [])"
| "ms (Many0 a) (p, s, c) = many a p s c"
| "ms (Many1 a) (p, s, c) =
     (case s of [] \<Rightarrow> [] | x # xs \<Rightarrow> if accepts a x then many a (Suc p) xs c else [])"
| "ms (Seq r1 r2) st = concat (map (ms r2) (ms r1 st))"
| "ms (Alt r1 r2) st = ms r1 st @ ms r2 st"
| "ms (Opt r) (p, s, c) = filter (\<lambda>st'. fst st' \<noteq> p) (ms r (p, s, c)) @ [(p, s, c)]"
| "ms (Group n r) (p, s, c) =
     map (\<lambda>(p', s', c'). (p', s', c'(n \<mapsto> take (p' - p) s))) (ms r (p, s, c))"
| "ms Bol (p, s, c) = (if p = 0 then [(p, s, c)] else [])"
| "ms Eol (p, s, c) = (if s = [] then [(p, s, c)] else [])"

text \<open>
  \<^verbatim>\<open>RegExp.prototype.exec\<close> without the global flag: the first start index at which
  the pattern matches, with the first match in priority order. The result is the index
  and the groups, group 0 being the whole match.
\<close>

fun exec_from :: "rx \<Rightarrow> nat \<Rightarrow> string \<Rightarrow> (nat \<times> captures) option" where
  "exec_from r p [] =
     (case ms r (p, [], Map.empty) of
        [] \<Rightarrow> None
      | (p', s', c) # _ \<Rightarrow> Some (p, c(0 \<mapsto> [])))"
| "exec_from r p (x # xs) =
     (case ms r (p, x # xs, Map.empty) of
        [] \<Rightarrow> exec_from r (Suc p) xs
      | (p', s', c) # _ \<Rightarrow> Some (p, c(0 \<mapsto> take (p' - p) (x # xs))))"

definition rx_match :: "rx \<Rightarrow> string \<Rightarrow> captures option" where
  "rx_match r s = map_option snd (exec_from r 0 s)"

definition rx_test :: "rx \<Rightarrow> string \<Rightarrow> bool" where
  "rx_test r s = (exec_from r 0 s \<noteq> None)"

text \<open>\<^verbatim>\<open>s.replace(r, rep)\<close> for a pattern without the global flag and a replacement
  without \<^verbatim>\<open>$\<close>: the first match is replaced.\<close>

definition rx_replace :: "rx \<Rightarrow> string \<Rightarrow> string \<Rightarrow> string" where
  "rx_replace r rep s =
     (case exec_from r 0 s of
        None \<Rightarrow> s
      | Some (i, c) \<Rightarrow> take i s @ rep @ drop (i + length (case c 0 of None \<Rightarrow> [] | Some w \<Rightarrow> w)) s)"

text \<open>\<^verbatim>\<open>s.includes(needle)\<close> and \<^verbatim>\<open>s.startsWith(p)\<close>.\<close>

fun includes_str :: "string \<Rightarrow> string \<Rightarrow> bool" where
  "includes_str needle [] = (needle = [])"
| "includes_str needle (x # xs) = (prefix needle (x # xs) \<or> includes_str needle xs)"

definition startsWith :: "string \<Rightarrow> string \<Rightarrow> bool" where
  "startsWith s p = prefix p s"

text \<open>\<^verbatim>\<open>v || ''\<close> for a capture group: an unmatched group is \<^verbatim>\<open>undefined\<close>.\<close>

definition or_empty :: "string option \<Rightarrow> string" where
  "or_empty v = (case v of None \<Rightarrow> [] | Some s \<Rightarrow> s)"

subsection \<open>The patterns of the source\<close>

text \<open>\<^verbatim>\<open>/^file:/\<close>\<close>

definition rx_file :: rx where
  "rx_file = Seq Bol (Str ''file:'')"

text \<open>\<^verbatim>\<open>/^file:(.*)?$/\<close>\<close>

definition rx_file_path :: rx where
  "rx_file_path = Seq Bol (Seq (Str ''file:'') (Seq (Opt (Group 1 (Many0 Dot))) Eol))"

text \<open>\<^verbatim>\<open>/^.+\.(tgz|tar\.gz)$/\<close>\<close>

definition rx_archive :: rx where
  "rx_archive =
     Seq Bol (Seq (Many1 Dot) (Seq (Str ''.'')
       (Seq (Group 1 (Alt (Str ''tgz'') (Seq (Str ''tar'') (Seq (Str ''.'') (Str ''gz''))))) Eol)))"

text \<open>\<^verbatim>\<open>/^(@[^/]+\/)?([^@]+)?(@.+)?$/\<close>\<close>

definition rx_scope :: rx where
  "rx_scope = Opt (Group 1 (Seq (Str ''@'') (Seq (Many1 (NoneOf ''/'')) (Str ''/''))))"

definition rx_name :: rx where
  "rx_name = Opt (Group 2 (Many1 (NoneOf ''@'')))"

definition rx_version :: rx where
  "rx_version = Opt (Group 3 (Seq (Str ''@'') (Many1 Dot)))"

definition rx_package :: rx where
  "rx_package = Seq Bol (Seq rx_scope (Seq rx_name (Seq rx_version Eol)))"

text \<open>\<^verbatim>\<open>/\.iml$/\<close>\<close>

definition rx_iml :: rx where
  "rx_iml = Seq (Str ''.iml'') Eol"

text \<open>\<^verbatim>\<open>/(npm run |npm )/\<close>\<close>

definition rx_npm :: rx where
  "rx_npm = Group 1 (Alt (Str ''npm run '') (Str ''npm ''))"

section \<open>Node's \<^verbatim>\<open>path.resolve\<close>\<close>

text \<open>
  \<^verbatim>\<open>path.resolve\<close> belongs to Node, not to the repository. It is modelled in its POSIX
  flavour, segment by segment: the arguments are read from right to left until one is
  absolute, the working directory of the process is read only when none is, and the
  result is normalised (\<^verbatim>\<open>.\<close>, \<^verbatim>\<open>..\<close> and empty segments resolved). An argument that is
  \<^verbatim>\<open>undefined\<close> (here \<open>None\<close>) raises a \<^verbatim>\<open>TypeError\<close> when it is reached.
\<close>

fun resolve_loop :: "string option list \<Rightarrow> string \<Rightarrow> js_error + (bool \<times> string)" where
  "resolve_loop [] acc = Inr (False, acc)"
| "resolve_loop (None # ps) acc = Inl TypeError"
| "resolve_loop (Some p # ps) acc =
     (if p = [] then resolve_loop ps acc
      else if hd p = CHR ''/'' then Inr (True, p @ ''/'' @ acc)
      else resolve_loop ps (p @ ''/'' @ acc))"

fun split_slash :: "string \<Rightarrow> string \<Rightarrow> string list" where
  "split_slash seg [] = [rev seg]"
| "split_slash seg (x # xs) =
     (if x = CHR ''/'' then rev seg # split_slash [] xs else split_slash (x # seg) xs)"

fun normalize_segments :: "bool \<Rightarrow> string list \<Rightarrow> string list \<Rightarrow> string list" where
  "normalize_segments allowAboveRoot res [] = res"
| "normalize_segments allowAboveRoot res (seg # segs) =
     (if seg = [] \<or> seg = ''.'' then normalize_segments allowAboveRoot res segs
      else if seg = ''..'' then
        (if res \<noteq> [] \<and> last res \<noteq> ''..'' then normalize_segments allowAboveRoot (butlast res) segs
         else if allowAboveRoot then normalize_segments allowAboveRoot (res @ [''..'']) segs
         else normalize_segments allowAboveRoot res segs)
      else normalize_segments allowAboveRoot (res @ [seg]) segs)"

fun join_slash :: "string list \<Rightarrow> string" where
  "join_slash [] = []"
| "join_slash [seg] = seg"
| "join_slash (seg # segs) = seg @ ''/'' @ join_slash segs"

definition normalizeString :: "string \<Rightarrow> bool \<Rightarrow> string" where
  "normalizeString path allowAboveRoot =
     join_slash (normalize_segments allowAboveRoot [] (split_slash [] path))"

definition path_resolve :: "string \<Rightarrow> string option list \<Rightarrow> js_error + string" where
  "path_resolve cwd args =
     (case resolve_loop (rev args @ [Some cwd]) [] of
        Inl e \<Rightarrow> Inl e
      | Inr (resolvedAbsolute, resolvedPath) \<Rightarrow>
          (let n = normalizeString resolvedPath (\<not> resolvedAbsolute) in
           if resolvedAbsolute then Inr (''/'' @ n)
           else if n \<noteq> [] then Inr n else Inr ''.''))"

section \<open>Template name normalisation\<close>

text \<open>
  \<^verbatim>\<open>getTemplateInstallPackage(template, originalDirectory)\<close>. The template is
  \<open>None\<close> when the caller passes \<^verbatim>\<open>undefined\<close>. The first argument is the working
  directory of the process, which \<^verbatim>\<open>path.resolve\<close> may read. A \<^verbatim>\<open>match\<close> that
  returns \<^verbatim>\<open>null\<close> is indexed by the source without a check, which raises a
  \<^verbatim>\<open>TypeError\<close>.
\<close>

definition getTemplateInstallPackage ::
  "string \<Rightarrow> string option \<Rightarrow> string \<Rightarrow> js_error + string" where
  "getTemplateInstallPackage cwd template originalDirectory =
     (let templateToInstall = ''@hackermans/cba-template'' in
      case template of
        None \<Rightarrow> Inr templateToInstall
      | Some t \<Rightarrow>
          if t = [] then Inr templateToInstall
          else if rx_test rx_file t then
            (case rx_match rx_file_path t of
               None \<Rightarrow> Inl TypeError
             | Some m \<Rightarrow>
                 (case path_resolve cwd [Some originalDirectory, m 1] of
                    Inl e \<Rightarrow> Inl e
                  | Inr p \<Rightarrow> Inr (''file:'' @ p)))
          else if includes_str ''://'' t \<or> rx_test rx_archive t then Inr t
          else
            (case rx_match rx_package t of
               None \<Rightarrow> Inl TypeError
             | Some packageMatch \<Rightarrow>
                 (let scope = or_empty (packageMatch 1);
                      templateName = or_empty (packageMatch 2);
                      version = or_empty (packageMatch 3)
                  in if templateName = templateToInstall
                        \<or> startsWith templateName (templateToInstall @ ''-'')
                     then Inr (scope @ templateName @ version)
                     else if version \<noteq> [] \<and> scope = [] \<and> templateName = []
                     then Inr (version @ ''/'' @ templateToInstall)
                     else Inr (scope @ templateToInstall @ ''-'' @ templateName @ version))))"

section \<open>Results, JSON values and the project directory\<close>

text \<open>
  A call returns, ends the process with \<^verbatim>\<open>process.exit(code)\<close>, or throws. Of the
  console output, the lines that \<^verbatim>\<open>checkAppName\<close> prints with \<^verbatim>\<open>console.error\<close> are
  modelled, without the colours of \<^verbatim>\<open>chalk\<close>.
\<close>

datatype 'a result = Return 'a | Exit nat | Throw js_error

text \<open>
  JSON values as \<^verbatim>\<open>JSON.parse\<close> builds them. An object is the list of its own
  properties. Numbers are only copied and tested for truthiness by the code modelled
  here, and are integers in the model.
\<close>

datatype json =
    JNull
  | JBool bool
  | JNum int
  | JStr string
  | JArr "json list"
  | JObj "(string \<times> json) list"

type_synonym object = "(string \<times> json) list"

fun truthy :: "json \<Rightarrow> bool" where
  "truthy JNull = False"
| "truthy (JBool b) = b"
| "truthy (JNum n) = (n \<noteq> 0)"
| "truthy (JStr s) = (s \<noteq> [])"
| "truthy (JArr xs) = True"
| "truthy (JObj kvs) = True"

text \<open>
  The project directory \<^verbatim>\<open>root\<close>: its entries by name. A JSON file is kept as the value
  it serialises (\<^verbatim>\<open>JSON.stringify\<close> and \<^verbatim>\<open>require\<close> are not modelled apart); a
  directory is \<open>Directory\<close>, whatever it holds; any other file is opaque. The world
  is the directory \<^verbatim>\<open>root\<close> (\<open>None\<close> when it does not exist) and the list of the
  effects performed so far, in order.
\<close>

datatype entry = JsonFile json | Directory | Other

type_synonym dir = "(string \<times> entry) list"

datatype effect =
    EnsureDirSync string
  | WriteFileSync string json
  | RemoveSync string
  | RemoveRoot
  | Spawn string "string list"
  | ConsoleError string

record world =
  files :: "dir option"
  effects :: "effect list"

definition readdirSync :: "world \<Rightarrow> js_error + string list" where
  "readdirSync w = (case files w of None \<Rightarrow> Inl ENOENT | Some d \<Rightarrow> Inr (map fst d))"

definition removeSync :: "string \<Rightarrow> world \<Rightarrow> world" where
  "removeSync file w =
     w\<lparr>files := map_option (filter (\<lambda>e. fst e \<noteq> file)) (files w),
       effects := effects w @ [RemoveSync file]\<rparr>"

definition removeRoot :: "world \<Rightarrow> world" where
  "removeRoot w = w\<lparr>files := None, effects := effects w @ [RemoveRoot]\<rparr>"

definition writeFileSync :: "string \<Rightarrow> json \<Rightarrow> world \<Rightarrow> js_error + world" where
  "writeFileSync file content w =
     (case files w of
        None \<Rightarrow> Inl ENOENT
      | Some d \<Rightarrow>
          Inr (w\<lparr>files := Some (AList.update file (JsonFile content) d),
                 effects := effects w @ [WriteFileSync file content]\<rparr>))"

text \<open>
  What the program cannot decide by itself: the working directory of the process, the
  answer of the package \<^verbatim>\<open>validate-npm-package-name\<close> (its verdict
  \<^verbatim>\<open>validForNewPackages\<close> and the lists \<^verbatim>\<open>errors\<close> and \<^verbatim>\<open>warnings\<close>, each of which
  may be missing),
  whether \<^verbatim>\<open>npm config list\<close> reports the working directory, whether the DNS lookup of
  the Yarn registry succeeds, and what a spawned package manager does: its exit status
  (\<open>None\<close> for \<^verbatim>\<open>null\<close>, a child that was killed or could not start) and the
  directory it leaves.
\<close>

record validation =
  validForNewPackages :: bool
  errors :: "string list option"
  warnings :: "string list option"

record env =
  cwd :: string
  validateProjectName :: "string \<Rightarrow> validation"
  npmReportsCwd :: bool
  dnsLookupOk :: bool
  child :: "string \<Rightarrow> string list \<Rightarrow> dir option \<Rightarrow> int option \<times> dir option"

text \<open>\<^verbatim>\<open>sync(command, args, ...)\<close> of \<^verbatim>\<open>cross-spawn\<close>.\<close>

definition sync :: "env \<Rightarrow> string \<Rightarrow> string list \<Rightarrow> world \<Rightarrow> int option \<times> world" where
  "sync e command args w =
     (let (status, d) = child e command args (files w)
      in (status, w\<lparr>files := d, effects := effects w @ [Spawn command args]\<rparr>))"

section \<open>checkAppName\<close>

text \<open>\<^verbatim>\<open>console.error(line)\<close>.\<close>

definition console_error :: "string \<Rightarrow> world \<Rightarrow> world" where
  "console_error line w = w\<lparr>effects := effects w @ [ConsoleError line]\<rparr>"

text \<open>The template literal \<^verbatim>\<open>`"${s}"`\<close>, \<^verbatim>\<open>v || []\<close> for a list that may be missing, and
  \<^verbatim>\<open>join\<close> with a line feed between the lines.\<close>

definition quoted :: "string \<Rightarrow> string" where
  "quoted s = [CHR 0x22] @ s @ [CHR 0x22]"

definition or_nil :: "'a list option \<Rightarrow> 'a list" where
  "or_nil v = (case v of None \<Rightarrow> [] | Some xs \<Rightarrow> xs)"

fun join_lines :: "string list \<Rightarrow> string" where
  "join_lines [] = []"
| "join_lines [a] = a"
| "join_lines (a # as) = a @ [CHR 0x0A] @ join_lines as"

text \<open>
  \<^verbatim>\<open>checkAppName\<close>. The list of dependencies is sorted by the source; it is written
  here in its sorted order.
\<close>

definition checkAppName :: "env \<Rightarrow> string \<Rightarrow> world \<Rightarrow> unit result \<times> world" where
  "checkAppName e appName w =
     (let validationResult = validateProjectName e appName
      in if \<not> validForNewPackages validationResult then
           (let w1 = console_error
                       (''Cannot create a project named '' @ quoted appName
                          @ '' because of npm naming restrictions:'' @ [CHR 0x0A]) w;
                w2 = fold (\<lambda>error. console_error (''  * '' @ error))
                       (or_nil (errors validationResult) @ or_nil (warnings validationResult)) w1;
                w3 = console_error ([CHR 0x0A] @ ''Please choose a different project name.'') w2
            in (Exit 1, w3))
         else
           (let dependencies = [''@babel/core'', ''@babel/preset-env'']
            in if appName \<in> set dependencies then
                 (Exit 1,
                  console_error
                    (''Cannot create a project named '' @ quoted appName
                       @ '' because a dependency with the same name exists.'' @ [CHR 0x0A]
                       @ ''Due to the way npm works, the following names are not allowed:''
                       @ [CHR 0x0A, CHR 0x0A]
                       @ join_lines (map (\<lambda>depName. ''  '' @ depName) dependencies)
                       @ [CHR 0x0A, CHR 0x0A] @ ''Please choose a different project name.'') w)
               else (Return (), w)))"

section \<open>isSafeToCreateProjectIn\<close>

definition validFiles :: "string list" where
  "validFiles =
     [''.DS_Store'', ''.git'', ''.gitattributes'', ''.gitignore'', ''.gitlab-ci.yml'',
      ''.hg'', ''.hgcheck'', ''.hgignore'', ''.idea'', ''.npmignore'', ''.travis.yml'',
      ''docs'', ''LICENSE'', ''README.md'', ''mkdocs.yml'', ''Thumbs.db'']"

definition errorLogFilePatterns :: "string list" where
  "errorLogFilePatterns = [''npm-debug.log'', ''yarn-error.log'', ''yarn-debug.log'']"

definition isErrorLog :: "string \<Rightarrow> bool" where
  "isErrorLog file = list_ex (\<lambda>pattern. startsWith file pattern) errorLogFilePatterns"

definition isSafeToCreateProjectIn :: "world \<Rightarrow> (bool \<times> world) result" where
  "isSafeToCreateProjectIn w =
     (case readdirSync w of
        Inl e \<Rightarrow> Throw e
      | Inr names \<Rightarrow>
          (let conflicts =
                 filter (\<lambda>file. \<not> isErrorLog file)
                   (filter (\<lambda>file. \<not> rx_test rx_iml file)
                     (filter (\<lambda>file. file \<notin> set validFiles) names))
           in if length conflicts > 0 then Return (False, w)
              else Return (True,
                     fold (\<lambda>file w'. if isErrorLog file then removeSync file w' else w') names w)))"

section \<open>install and run\<close>

fun join_space :: "string list \<Rightarrow> string" where
  "join_space [] = []"
| "join_space [a] = a"
| "join_space (a # as) = a @ '' '' @ join_space as"

text \<open>The command line that \<^verbatim>\<open>install\<close> builds before it spawns the child.\<close>

definition install_command ::
  "string \<Rightarrow> bool \<Rightarrow> string list \<Rightarrow> bool \<Rightarrow> bool \<Rightarrow> string \<times> string list" where
  "install_command root isYarn dependencies verbose isOnline =
     (let (command, args) =
            (if isYarn then
               (''yarnpkg'',
                [''add'', ''--exact''] @ (if \<not> isOnline then [''--offline''] else [])
                  @ dependencies @ [''--cwd''] @ [root])
             else
               (''npm'',
                [''install'', ''--no-audit'', ''--save-exact'', ''--loglevel'', ''error'']
                  @ dependencies))
      in (command, args @ (if verbose then [''--verbose''] else [])))"

text \<open>\<^verbatim>\<open>install\<close>: the promise is rejected with the command line (\<open>Inl\<close>) when the
  status of the child is not 0, and resolved otherwise.\<close>

definition install ::
  "env \<Rightarrow> string \<Rightarrow> bool \<Rightarrow> string list \<Rightarrow> bool \<Rightarrow> bool \<Rightarrow> world \<Rightarrow> (string + unit) \<times> world" where
  "install e root isYarn dependencies verbose isOnline w =
     (let (command, args) = install_command root isYarn dependencies verbose isOnline;
          (status, w') = sync e command args w
      in if status \<noteq> Some 0 then (Inl (command @ '' '' @ join_space args), w')
         else (Inr (), w'))"

text \<open>
  \<^verbatim>\<open>checkIfOnline\<close>: without Yarn the answer is \<^verbatim>\<open>true\<close>. With Yarn, a failed lookup
  evaluates \<^verbatim>\<open>getProxy()\<close>, which the module does not define.
\<close>

definition checkIfOnline :: "env \<Rightarrow> bool \<Rightarrow> bool result" where
  "checkIfOnline e useYarn =
     (if \<not> useYarn then Return True
      else if dnsLookupOk e then Return True
      else Throw ReferenceError)"

text \<open>
  A call of \<^verbatim>\<open>getTemplateInstallPackage\<close> in a process: the function reads the working
  directory of the process (through \<^verbatim>\<open>path.resolve\<close>), assigns to its local
  \<^verbatim>\<open>templateToInstall\<close> only, and calls nothing that touches the directory or the
  console, so the world it leaves is the world it found.
\<close>

definition getTemplateInstallPackage_call ::
  "env \<Rightarrow> string option \<Rightarrow> string \<Rightarrow> world \<Rightarrow> (js_error + string) \<times> world" where
  "getTemplateInstallPackage_call e template originalDirectory w =
     (getTemplateInstallPackage (cwd e) template originalDirectory, w)"

text \<open>The handler of \<^verbatim>\<open>.catch\<close> in \<^verbatim>\<open>run\<close>: the generated files are deleted, the
  directory is deleted when nothing is left, and the process exits with status 1.\<close>

definition knownGeneratedFiles :: "string list" where
  "knownGeneratedFiles = [''package.json'', ''node_modules'']"

definition run_catch :: "world \<Rightarrow> string result \<times> world" where
  "run_catch w =
     (case readdirSync w of
        Inl e \<Rightarrow> (Throw e, w)
      | Inr currentFiles \<Rightarrow>
          (let w1 = fold (\<lambda>file. fold (\<lambda>fileToMatch w'.
                            if file = fileToMatch then removeSync file w' else w')
                          knownGeneratedFiles) currentFiles w
           in case readdirSync w1 of
                Inl e \<Rightarrow> (Throw e, w1)
              | Inr remainingFiles \<Rightarrow>
                  (if length remainingFiles = 0 then (Exit 1, removeRoot w1)
                   else (Exit 1, w1))))"

text \<open>
  \<^verbatim>\<open>run\<close>, up to the end of the install step. The promise chain is run in its
  order: the template is resolved, \<^verbatim>\<open>checkIfOnline\<close> answers, \<^verbatim>\<open>install\<close> spawns
  the package manager, and a rejection is handled by \<^verbatim>\<open>.catch\<close>. An exception thrown
  outside the chain is not caught. \<open>Return t\<close> stands for an install that succeeded
  with the template package \<open>t\<close>: the program goes on with \<^verbatim>\<open>checkNodeVersion\<close> and
  \<^verbatim>\<open>initializeTemplate\<close>.
\<close>

definition run ::
  "env \<Rightarrow> string \<Rightarrow> string \<Rightarrow> bool \<Rightarrow> string \<Rightarrow> string option \<Rightarrow> bool \<Rightarrow> world
     \<Rightarrow> string result \<times> world" where
  "run e root appName verbose originalDirectory template isYarn w =
     (case getTemplateInstallPackage_call e template originalDirectory w of
        (Inl err, w0) \<Rightarrow> (Throw err, w0)
      | (Inr templateToInstall, w0) \<Rightarrow>
          (let allDependencies = [''@babel/core'', ''@babel/preset-env'']
           in case checkIfOnline e isYarn of
                Throw err \<Rightarrow> (Throw err, w0)
              | Exit n \<Rightarrow> (Exit n, w0)
              | Return isOnline \<Rightarrow>
                  (let allDependencies = allDependencies @ [templateToInstall]
                   in case install e root isYarn allDependencies verbose isOnline w0 of
                        (Inr u, w') \<Rightarrow> (Return templateToInstall, w')
                      | (Inl command, w') \<Rightarrow> run_catch w')))"

section \<open>createApp\<close>

text \<open>\<^verbatim>\<open>path.basename\<close> of a resolved path (which has no trailing separator).\<close>

definition basename :: "string \<Rightarrow> string" where
  "basename p = last (split_slash [] p)"

text \<open>
  \<^verbatim>\<open>ensureDirSync(appName)\<close> of \<^verbatim>\<open>fs-extra\<close> creates the directory \<^verbatim>\<open>appName\<close> of the
  working directory, with the parents that are missing, unless it is there; it throws
  when a file has that name. \<^verbatim>\<open>createApp\<close> calls it with the last segment of
  \<^verbatim>\<open>root\<close>, and the world holds the entries of \<^verbatim>\<open>root\<close>. When \<^verbatim>\<open>root\<close> is the
  working directory itself (\<^verbatim>\<open>make-babel .\<close>), the directory created is a new entry
  of \<^verbatim>\<open>root\<close>. When the directory \<^verbatim>\<open>appName\<close> of the working directory is \<^verbatim>\<open>root\<close>,
  \<^verbatim>\<open>root\<close> is created if it is missing. In every other case (a name with several
  segments, or one that leaves the working directory) the directory created is
  neither \<^verbatim>\<open>root\<close> nor an entry of it, and \<^verbatim>\<open>root\<close> stays as it is.
\<close>

definition ensureDirSync :: "env \<Rightarrow> string \<Rightarrow> string \<Rightarrow> world \<Rightarrow> unit result \<times> world" where
  "ensureDirSync e appName root w =
     (let w' = w\<lparr>effects := effects w @ [EnsureDirSync appName]\<rparr>
      in if appName \<noteq> [] \<and> path_resolve (cwd e) [] = Inr root then
           (case files w of
              None \<Rightarrow> (Return (), w'\<lparr>files := Some [(appName, Directory)]\<rparr>)
            | Some d \<Rightarrow>
                (case map_of d appName of
                   None \<Rightarrow> (Return (), w'\<lparr>files := Some (d @ [(appName, Directory)])\<rparr>)
                 | Some Directory \<Rightarrow> (Return (), w')
                 | Some file \<Rightarrow> (Throw EEXIST, w')))
         else if path_resolve (cwd e) [Some appName] = Inr root \<and> files w = None
         then (Return (), w'\<lparr>files := Some []\<rparr>)
         else (Return (), w'))"

text \<open>\<^verbatim>\<open>canNpmReadCWD\<close> spawns \<^verbatim>\<open>npm config list\<close> and compares the directory it
  reports.\<close>

definition canNpmReadCWD :: "env \<Rightarrow> world \<Rightarrow> bool \<times> world" where
  "canNpmReadCWD e w =
     (npmReportsCwd e, w\<lparr>effects := effects w @ [Spawn ''npm'' [''config'', ''list'']]\<rparr>)"

definition createApp ::
  "env \<Rightarrow> string \<Rightarrow> bool \<Rightarrow> string option \<Rightarrow> bool \<Rightarrow> world \<Rightarrow> string result \<times> world" where
  "createApp e name verbose template isYarn w =
     (case path_resolve (cwd e) [Some name] of
        Inl err \<Rightarrow> (Throw err, w)
      | Inr root \<Rightarrow>
          (let appName = basename root
           in case checkAppName e appName w of
                (Exit n, w0) \<Rightarrow> (Exit n, w0)
              | (Throw err, w0) \<Rightarrow> (Throw err, w0)
              | (Return u, w0) \<Rightarrow>
                  (case ensureDirSync e appName root w0 of
                     (Exit n, w1) \<Rightarrow> (Exit n, w1)
                   | (Throw err, w1) \<Rightarrow> (Throw err, w1)
                   | (Return u, w1) \<Rightarrow>
                       (case isSafeToCreateProjectIn w1 of
                          Throw err \<Rightarrow> (Throw err, w1)
                        | Exit n \<Rightarrow> (Exit n, w1)
                        | Return (safe, w2) \<Rightarrow>
                            if \<not> safe then (Exit 1, w2)
                            else
                              (let packageJson =
                                     JObj [(''name'', JStr appName),
                                           (''version'', JStr ''1.0.0''),
                                           (''private'', JBool True)]
                               in case writeFileSync ''package.json'' packageJson w2 of
                                    Inl err \<Rightarrow> (Throw err, w2)
                                  | Inr w3 \<Rightarrow>
                                      (let originalDirectory = cwd e;
                                           e' = e\<lparr>cwd := root\<rparr>;
                                           (canRead, w4) =
                                             (if \<not> isYarn then canNpmReadCWD e' w3 else (True, w3))
                                       in if \<not> isYarn \<and> \<not> canRead then (Exit 1, w4)
                                          else run e' root appName verbose originalDirectory
                                                 template isYarn w4))))))"

section \<open>The manifest merge of initializeTemplate\<close>

text \<open>
  Property access on an object built by \<^verbatim>\<open>JSON.parse\<close>. Reading finds own properties
  (the keys read by the code are not properties of \<^verbatim>\<open>Object.prototype\<close>). The
  assignment \<^verbatim>\<open>obj[key] = v\<close> replaces or adds an own property, except for the key
  \<^verbatim>\<open>__proto__\<close> when the object has no own property of that name: the assignment then
  reaches the accessor of \<^verbatim>\<open>Object.prototype\<close>, which changes the prototype and adds no
  property, and \<^verbatim>\<open>JSON.stringify\<close> writes own properties only.
\<close>

definition js_get :: "object \<Rightarrow> string \<Rightarrow> json option" where
  "js_get obj key = map_of obj key"

definition js_set :: "object \<Rightarrow> string \<Rightarrow> json \<Rightarrow> object" where
  "js_set obj key v =
     (if key = ''__proto__'' \<and> map_of obj key = None then obj
      else AList.update key v obj)"

text \<open>\<^verbatim>\<open>v || {}\<close> for a property that may be missing.\<close>

definition or_object :: "json option \<Rightarrow> json" where
  "or_object v = (case v of None \<Rightarrow> JObj [] | Some j \<Rightarrow> if truthy j then j else JObj [])"

text \<open>The own enumerable properties of a value: those of an object, the indices of a
  string or an array, none for the other values.\<close>

fun digit :: "nat \<Rightarrow> char" where
  "digit n = ''0123456789'' ! (n mod 10)"

fun show_nat :: "nat \<Rightarrow> string" where
  "show_nat n = (if n < 10 then [digit n] else show_nat (n div 10) @ [digit n])"

fun indexed :: "nat \<Rightarrow> json list \<Rightarrow> object" where
  "indexed i [] = []"
| "indexed i (v # vs) = (show_nat i, v) # indexed (Suc i) vs"

fun own_properties :: "json \<Rightarrow> object" where
  "own_properties (JObj kvs) = kvs"
| "own_properties (JArr vs) = indexed 0 vs"
| "own_properties (JStr s) = indexed 0 (map (\<lambda>c. JStr [c]) s)"
| "own_properties v = []"

text \<open>\<^verbatim>\<open>Object.assign({}, source)\<close>: every own property of the source is assigned.\<close>

definition object_assign_empty :: "json \<Rightarrow> object" where
  "object_assign_empty source = fold (\<lambda>(key, v) target. js_set target key v) (own_properties source) []"

text \<open>The \<^verbatim>\<open>reduce\<close> that rewrites the scripts for Yarn: \<^verbatim>\<open>value.replace\<close> is a
  function only when the value is a string.\<close>

fun yarn_scripts :: "object \<Rightarrow> object \<Rightarrow> js_error + object" where
  "yarn_scripts [] acc = Inr acc"
| "yarn_scripts ((key, JStr s) # entries) acc =
     yarn_scripts entries (AList.update key (JStr (rx_replace rx_npm ''yarn '' s)) acc)"
| "yarn_scripts ((key, v) # entries) acc = Inl TypeError"

definition templatePackageBlacklist :: "string list" where
  "templatePackageBlacklist =
     [''name'', ''version'', ''description'', ''keywords'', ''bugs'', ''license'', ''author'',
      ''contributors'', ''files'', ''browser'', ''bin'', ''man'', ''directories'',
      ''repository'', ''peerDependencies'', ''bundledDependencies'',
      ''optionalDependencies'', ''engineStrict'', ''os'', ''cpu'', ''preferGlobal'',
      ''private'', ''publishConfig'']"

definition templatePackageToMerge :: "string list" where
  "templatePackageToMerge = [''dependencies'', ''scripts'']"

text \<open>
  \<^verbatim>\<open>initializeTemplate\<close> from the blacklist to the write of \<^verbatim>\<open>package.json\<close>: the
  object written for the manifest \<open>appPackage\<close> of the app and the fragment
  \<open>templatePackage\<close> of the template (an object), or the error thrown before the write.
\<close>

definition initializeTemplate_manifest :: "object \<Rightarrow> object \<Rightarrow> bool \<Rightarrow> js_error + object" where
  "initializeTemplate_manifest appPackage templatePackage isYarn =
     (let templatePackageToReplace =
            filter (\<lambda>key. key \<notin> set templatePackageBlacklist \<and> key \<notin> set templatePackageToMerge)
              (map fst templatePackage);
          appPackage1 = js_set appPackage ''dependencies''
                          (or_object (js_get appPackage ''dependencies''));
          templateScripts = or_object (js_get templatePackage ''scripts'');
          scripts = object_assign_empty templateScripts
      in case (if isYarn then yarn_scripts scripts [] else Inr scripts) of
           Inl err \<Rightarrow> Inl err
         | Inr scripts' \<Rightarrow>
             (let appPackage2 = js_set appPackage1 ''scripts'' (JObj scripts')
              in Inr (fold (\<lambda>key app.
                             case js_get templatePackage key of
                               None \<Rightarrow> app
                             | Some v \<Rightarrow> js_set app key v)
                           templatePackageToReplace appPackage2)))"

section \<open>Closed forms used in the proofs\<close>

text \<open>
  The definitions of this section are not part of the program: the lemmas below prove
  that they describe what the matcher computes for the pattern of package names, and
  what \<^verbatim>\<open>isSafeToCreateProjectIn\<close> does not count as a conflict.
\<close>

definition first_of :: "'a list \<Rightarrow> 'a option" where
  "first_of xs = (case xs of [] \<Rightarrow> None | x # _ \<Rightarrow> Some x)"

text \<open>The group \<^verbatim>\<open>(@[^/]+\/)\<close> at index \<open>p\<close> of the input \<open>s\<close>.\<close>

definition package_scope :: "nat \<Rightarrow> string \<Rightarrow> captures \<Rightarrow> mstate option" where
  "package_scope p s c =
     (let m = takeWhile (\<lambda>x. x \<noteq> CHR ''/'') (tl s);
          d = dropWhile (\<lambda>x. x \<noteq> CHR ''/'') (tl s)
      in if s \<noteq> [] \<and> hd s = CHR ''@'' \<and> m \<noteq> [] \<and> d \<noteq> []
         then Some (p + 2 + length m, tl d, c(1 \<mapsto> take (2 + length m) s))
         else None)"

text \<open>The rest of the pattern, \<^verbatim>\<open>([^@]+)?(@.+)?$\<close>.\<close>

definition package_tail :: "nat \<Rightarrow> string \<Rightarrow> captures \<Rightarrow> mstate option" where
  "package_tail p s c =
     (let n = takeWhile (\<lambda>x. x \<noteq> CHR ''@'') s;
          r = dropWhile (\<lambda>x. x \<noteq> CHR ''@'') s;
          c' = (if n = [] then c else c(2 \<mapsto> n))
      in if r = [] then Some (p + length s, [], c')
         else if tl r \<noteq> [] \<and> list_all (accepts Dot) (tl r) then Some (p + length s, [], c'(3 \<mapsto> r))
         else None)"

text \<open>The whole pattern: the scope group is tried first, and skipped when the rest
  does not match after it.\<close>

definition package_parse :: "string \<Rightarrow> mstate option" where
  "package_parse t =
     (case Option.bind (package_scope 0 t Map.empty) (\<lambda>(p, s, c). package_tail p s c) of
        Some st \<Rightarrow> Some st
      | None \<Rightarrow> package_tail 0 t Map.empty)"

definition allowed_entry :: "string \<Rightarrow> bool" where
  "allowed_entry file \<longleftrightarrow> file \<in> set validFiles \<or> suffix ''.iml'' file \<or> isErrorLog file"

section \<open>Lemmas about the directory\<close>

lemma files_removeSync [simp]:
  "files (removeSync file w) = map_option (filter (\<lambda>e. fst e \<noteq> file)) (files w)"
  by (simp add: removeSync_def)

lemma effects_removeSync [simp]:
  "effects (removeSync file w) = effects w @ [RemoveSync file]"
  by (simp add: removeSync_def)

lemma files_fold_remove:
  "files (fold (\<lambda>file w'. if P file then removeSync file w' else w') names w) =
     map_option (filter (\<lambda>e. \<not> (P (fst e) \<and> fst e \<in> set names))) (files w)"
proof (induction names arbitrary: w)
  case Nil
  then show ?case by (simp add: option.map_ident)
next
  case (Cons n ns)
  show ?case
    by (cases "files w") (auto simp: Cons.IH intro!: filter_cong)
qed

lemma prefix_effects_fold_remove:
  "prefix (effects w) (effects (fold (\<lambda>file w'. if P file then removeSync file w' else w') names w))"
proof (induction names arbitrary: w)
  case Nil
  then show ?case by simp
next
  case (Cons n ns)
  have "prefix (effects w) (effects (if P n then removeSync n w else w))"
    by simp
  then show ?case
    using Cons.IH [of "if P n then removeSync n w else w"] by simp
qed

lemma isErrorLog_iff:
  "isErrorLog file \<longleftrightarrow>
     prefix ''npm-debug.log'' file \<or> prefix ''yarn-error.log'' file \<or> prefix ''yarn-debug.log'' file"
  by (simp add: isErrorLog_def errorLogFilePatterns_def startsWith_def)

lemma files_fold_match:
  "files (fold (\<lambda>fileToMatch w'. if file = fileToMatch then removeSync file w' else w') known w) =
     map_option (filter (\<lambda>e. \<not> (fst e = file \<and> file \<in> set known))) (files w)"
proof (induction known arbitrary: w)
  case Nil
  then show ?case by (simp add: option.map_ident)
next
  case (Cons k ks)
  show ?case
    by (cases "files w") (auto simp: Cons.IH intro!: filter_cong)
qed

lemma files_fold_known:
  "files (fold (\<lambda>file. fold (\<lambda>fileToMatch w'.
             if file = fileToMatch then removeSync file w' else w') known) names w) =
     map_option (filter (\<lambda>e. \<not> (fst e \<in> set known \<and> fst e \<in> set names))) (files w)"
proof (induction names arbitrary: w)
  case Nil
  then show ?case by (simp add: option.map_ident)
next
  case (Cons n ns)
  show ?case
    by (cases "files w") (auto simp: Cons.IH files_fold_match intro!: filter_cong)
qed

lemma prefix_effects_fold_match:
  "prefix (effects w)
     (effects (fold (\<lambda>fileToMatch w'. if file = fileToMatch then removeSync file w' else w') known w))"
proof (induction known arbitrary: w)
  case Nil
  then show ?case by simp
next
  case (Cons k ks)
  have "prefix (effects w) (effects (if file = k then removeSync file w else w))"
    by simp
  then show ?case
    using Cons.IH [of "if file = k then removeSync file w else w"]
    by (auto intro: prefix_order.order_trans)
qed

lemma prefix_effects_fold_known:
  "prefix (effects w)
     (effects (fold (\<lambda>file. fold (\<lambda>fileToMatch w'.
                 if file = fileToMatch then removeSync file w' else w') known) names w))"
proof (induction names arbitrary: w)
  case Nil
  then show ?case by simp
next
  case (Cons n ns)
  show ?case
    using Cons.IH [of "fold (\<lambda>fileToMatch w'. if n = fileToMatch then removeSync n w' else w') known w"]
      prefix_effects_fold_match [of w n known]
    by (auto intro: prefix_order.order_trans)
qed

lemma run_catch_files:
  assumes "files w = Some d"
  shows "run_catch w =
           (Exit 1,
            let d' = filter (\<lambda>en. fst en \<noteq> ''package.json'' \<and> fst en \<noteq> ''node_modules'') d;
                w1 = fold (\<lambda>file. fold (\<lambda>fileToMatch w'.
                            if file = fileToMatch then removeSync file w' else w')
                          knownGeneratedFiles) (map fst d) w
            in if d' = [] then removeRoot w1 else w1)"
    and "files (snd (run_catch w)) =
           (let d' = filter (\<lambda>en. fst en \<noteq> ''package.json'' \<and> fst en \<noteq> ''node_modules'') d
            in if d' = [] then None else Some d')"
proof -
  let ?w1 = "fold (\<lambda>file. fold (\<lambda>fileToMatch w'.
                            if file = fileToMatch then removeSync file w' else w')
                          knownGeneratedFiles) (map fst d) w"
  have f1: "files ?w1 = Some (filter (\<lambda>en. fst en \<noteq> ''package.json'' \<and> fst en \<noteq> ''node_modules'') d)"
    unfolding files_fold_known assms by (auto simp: knownGeneratedFiles_def intro!: filter_cong)
  show "run_catch w =
           (Exit 1,
            let d' = filter (\<lambda>en. fst en \<noteq> ''package.json'' \<and> fst en \<noteq> ''node_modules'') d;
                w1 = ?w1
            in if d' = [] then removeRoot w1 else w1)"
    using assms f1 by (simp add: run_catch_def readdirSync_def Let_def)
  then show "files (snd (run_catch w)) =
           (let d' = filter (\<lambda>en. fst en \<noteq> ''package.json'' \<and> fst en \<noteq> ''node_modules'') d
            in if d' = [] then None else Some d')"
    using f1 by (simp add: Let_def removeRoot_def)
qed

lemma prefix_effects_run_catch: "prefix (effects w) (effects (snd (run_catch w)))"
proof (cases "files w")
  case None
  then show ?thesis by (simp add: run_catch_def readdirSync_def)
next
  case (Some d)
  have "prefix (effects w) (effects (fold (\<lambda>file. fold (\<lambda>fileToMatch w'.
                            if file = fileToMatch then removeSync file w' else w')
                          knownGeneratedFiles) (map fst d) w))" (is "prefix _ (effects ?w1)")
    by (rule prefix_effects_fold_known)
  moreover have "prefix (effects ?w1) (effects (removeRoot ?w1))"
    by (simp add: removeRoot_def)
  ultimately show ?thesis
    using run_catch_files(1) [OF Some] by (auto simp: Let_def intro: prefix_order.order_trans)
qed

section \<open>Lemmas about the matcher and the patterns\<close>

lemma ms_iml: "ms rx_iml (p, s, c) = (if s = ''.iml'' then [(p + 4, [], c)] else [])"
proof -
  have "prefix ''.iml'' s \<and> drop 4 s = [] \<longleftrightarrow> s = ''.iml''"
  proof
    assume a: "prefix ''.iml'' s \<and> drop 4 s = []"
    then obtain r where "s = ''.iml'' @ r" by (auto simp: prefix_def)
    with a show "s = ''.iml''" by simp
  qed auto
  then show ?thesis
    by (auto simp: rx_iml_def)
qed

lemma exec_from_iml: "exec_from rx_iml p s \<noteq> None \<longleftrightarrow> suffix ''.iml'' s"
proof (induction s arbitrary: p)
  case Nil
  then show ?case by (simp add: ms_iml)
next
  case (Cons x xs)
  show ?case
  proof (cases "x # xs = ''.iml''")
    case True
    then show ?thesis by (simp add: ms_iml)
  next
    case False
    then show ?thesis
      using Cons.IH [of "Suc p"] by (auto simp: ms_iml suffix_Cons)
  qed
qed

lemma rx_test_iml: "rx_test rx_iml file \<longleftrightarrow> suffix ''.iml'' file"
  unfolding rx_test_def by (rule exec_from_iml)

lemma run_unfold:
  "run e root appName verbose originalDirectory template isYarn w =
     (case getTemplateInstallPackage (cwd e) template originalDirectory of
        Inl err \<Rightarrow> (Throw err, w)
      | Inr templateToInstall \<Rightarrow>
          (case checkIfOnline e isYarn of
             Throw err \<Rightarrow> (Throw err, w)
           | Exit n \<Rightarrow> (Exit n, w)
           | Return isOnline \<Rightarrow>
               (case install e root isYarn [''@babel/core'', ''@babel/preset-env'', templateToInstall]
                       verbose isOnline w of
                  (Inr u, w') \<Rightarrow> (Return templateToInstall, w')
                | (Inl command, w') \<Rightarrow> run_catch w')))"
  by (simp add: run_def getTemplateInstallPackage_call_def Let_def split: sum.splits result.splits)

lemma prefix_effects_install:
  "prefix (effects w) (effects (snd (install e root isYarn deps verbose isOnline w)))"
  by (auto simp: install_def sync_def Let_def split: prod.splits)

lemma prefix_effects_run:
  "prefix (effects w) (effects (snd (run e root appName verbose originalDirectory template isYarn w)))"
proof (cases "getTemplateInstallPackage (cwd e) template originalDirectory")
  case (Inl err)
  then show ?thesis by (simp add: run_unfold)
next
  case t: (Inr t)
  show ?thesis
  proof (cases "checkIfOnline e isYarn")
    case (Return isOnline)
    obtain r w' where i: "install e root isYarn [''@babel/core'', ''@babel/preset-env'', t] verbose isOnline w = (r, w')"
      by (cases "install e root isYarn [''@babel/core'', ''@babel/preset-env'', t] verbose isOnline w")
    have p: "prefix (effects w) (effects w')"
      using prefix_effects_install [of w e root isYarn "[''@babel/core'', ''@babel/preset-env'', t]" verbose isOnline] i
      by simp
    show ?thesis
    proof (cases r)
      case (Inl command)
      then show ?thesis
        using t Return i p prefix_effects_run_catch [of w']
        by (auto simp: run_unfold intro: prefix_order.order_trans)
    next
      case (Inr u)
      then show ?thesis
        using t Return i p by (simp add: run_unfold)
    qed
  qed (simp_all add: run_unfold t)
qed

lemma isSafe_iff:
  assumes "files w = Some d"
  shows "isSafeToCreateProjectIn w =
           (if list_all allowed_entry (map fst d)
            then Return (True, fold (\<lambda>file w'. if isErrorLog file then removeSync file w' else w') (map fst d) w)
            else Return (False, w))"
proof -
  have "filter (\<lambda>file. \<not> isErrorLog file)
                   (filter (\<lambda>file. \<not> rx_test rx_iml file)
                     (filter (\<lambda>file. file \<notin> set validFiles) (map fst d))) = []
        \<longleftrightarrow> list_all allowed_entry (map fst d)"
    by (auto simp: filter_empty_conv list_all_iff allowed_entry_def rx_test_iml)
  then show ?thesis
    using assms by (simp add: isSafeToCreateProjectIn_def readdirSync_def)
qed

lemma effects_ensureDirSync:
  "effects (snd (ensureDirSync e appName root w)) = effects w @ [EnsureDirSync appName]"
  by (simp add: ensureDirSync_def Let_def split: option.splits entry.splits)


lemma prefix_effects_isSafe:
  assumes "isSafeToCreateProjectIn w = Return (safe, w')"
  shows "prefix (effects w) (effects w')"
proof (cases "files w")
  case None
  then show ?thesis
    using assms by (simp add: isSafeToCreateProjectIn_def readdirSync_def)
next
  case (Some d)
  show ?thesis
    using assms prefix_effects_fold_remove [of w isErrorLog "map fst d"]
    unfolding isSafe_iff [OF Some] by (auto split: if_splits)
qed

text \<open>\<^verbatim>\<open>createApp\<close> after the three checks: the manifest is written, and \<^verbatim>\<open>run\<close> is
  called in the new working directory unless npm cannot read it.\<close>

lemma createApp_after_checks:
  assumes "path_resolve (cwd e) [Some name] = Inr root"
    and "checkAppName e (basename root) w = (Return (), w0)"
    and "ensureDirSync e (basename root) root w0 = (Return (), w1)"
    and "isSafeToCreateProjectIn w1 = Return (True, w2)"
    and "writeFileSync ''package.json''
           (JObj [(''name'', JStr (basename root)), (''version'', JStr ''1.0.0''),
                  (''private'', JBool True)]) w2 = Inr w3"
  shows "createApp e name verbose template isYarn w =
           (if isYarn
            then run (e\<lparr>cwd := root\<rparr>) root (basename root) verbose (cwd e) template isYarn w3
            else if npmReportsCwd e
            then run (e\<lparr>cwd := root\<rparr>) root (basename root) verbose (cwd e) template isYarn
                   (w3\<lparr>effects := effects w3 @ [Spawn ''npm'' [''config'', ''list'']]\<rparr>)
            else (Exit 1, w3\<lparr>effects := effects w3 @ [Spawn ''npm'' [''config'', ''list'']]\<rparr>))"
  using assms by (simp add: createApp_def Let_def canNpmReadCWD_def)

lemma prefix_effects_createApp_after_checks:
  assumes "path_resolve (cwd e) [Some name] = Inr root"
    and "checkAppName e (basename root) w = (Return (), w0)"
    and "ensureDirSync e (basename root) root w0 = (Return (), w1)"
    and "isSafeToCreateProjectIn w1 = Return (True, w2)"
    and "writeFileSync ''package.json''
           (JObj [(''name'', JStr (basename root)), (''version'', JStr ''1.0.0''),
                  (''private'', JBool True)]) w2 = Inr w3"
  shows "prefix (effects w3) (effects (snd (createApp e name verbose template isYarn w)))"
proof -
  let ?w4 = "w3\<lparr>effects := effects w3 @ [Spawn ''npm'' [''config'', ''list'']]\<rparr>"
  let ?run = "run (e\<lparr>cwd := root\<rparr>) root (basename root) verbose (cwd e) template isYarn"
  have 3: "prefix (effects w3) (effects (snd (?run w3)))"
    by (rule prefix_effects_run)
  have 4: "prefix (effects w3) (effects ?w4)"
    by simp
  have "prefix (effects ?w4) (effects (snd (?run ?w4)))"
    by (rule prefix_effects_run)
  with 4 have 5: "prefix (effects w3) (effects (snd (?run ?w4)))"
    by (rule prefix_order.order_trans)
  show ?thesis
    unfolding createApp_after_checks [OF assms] using 3 4 5
    by (cases isYarn; cases "npmReportsCwd e"; simp)
qed

lemma fold_console_error:
  "fold (\<lambda>line. console_error (f line)) lines w =
     w\<lparr>effects := effects w @ map (\<lambda>line. ConsoleError (f line)) lines\<rparr>"
  by (induction lines arbitrary: w) (simp_all add: console_error_def)

text \<open>\<^verbatim>\<open>createApp\<close> after a name that \<^verbatim>\<open>checkAppName\<close> accepts: the next thing it
  does is to call \<^verbatim>\<open>ensureDirSync\<close>.\<close>

lemma prefix_effects_createApp_accepted:
  assumes "path_resolve (cwd e) [Some name] = Inr root"
    and "checkAppName e (basename root) w = (Return (), w)"
  shows "prefix (effects w @ [EnsureDirSync (basename root)])
           (effects (snd (createApp e name verbose template isYarn w)))"
proof -
  let ?app = "basename root"
  let ?pj = "JObj [(''name'', JStr ?app), (''version'', JStr ''1.0.0''), (''private'', JBool True)]"
  obtain r1 w1 where en: "ensureDirSync e ?app root w = (r1, w1)"
    by (cases "ensureDirSync e ?app root w")
  have e1: "effects w1 = effects w @ [EnsureDirSync ?app]"
    using effects_ensureDirSync [of e ?app root w] en by simp
  show ?thesis
  proof (cases r1)
    case (Return u)
    then have en': "ensureDirSync e ?app root w = (Return (), w1)"
      using en by simp
    show ?thesis
    proof (cases "isSafeToCreateProjectIn w1")
      case (Return sw)
      obtain safe w2 where sw: "sw = (safe, w2)" by (cases sw)
      have s: "isSafeToCreateProjectIn w1 = Return (safe, w2)"
        using Return sw by simp
      have p2: "prefix (effects w1) (effects w2)"
        using s by (rule prefix_effects_isSafe)
      show ?thesis
      proof (cases safe)
        case False
        then show ?thesis
          using assms en' s p2 by (simp add: createApp_def Let_def e1)
      next
        case True
        show ?thesis
        proof (cases "writeFileSync ''package.json'' ?pj w2")
          case (Inl err)
          then show ?thesis
            using assms en' s True p2 by (simp add: createApp_def Let_def e1)
        next
          case (Inr w3)
          have "prefix (effects w2) (effects w3)"
            using Inr by (auto simp: writeFileSync_def split: option.splits)
          moreover have "prefix (effects w3) (effects (snd (createApp e name verbose template isYarn w)))"
            using s True Inr prefix_effects_createApp_after_checks [OF assms en'] by simp
          ultimately show ?thesis
            using p2 unfolding e1 [symmetric] by (meson prefix_order.order_trans)
        qed
      qed
    next
      case (Exit n)
      then show ?thesis
        using assms en' by (simp add: createApp_def Let_def e1)
    next
      case (Throw err)
      then show ?thesis
        using assms en' by (simp add: createApp_def Let_def e1)
    qed
  next
    case (Exit n)
    then show ?thesis
      using assms en by (simp add: createApp_def Let_def e1)
  next
    case (Throw err)
    then show ?thesis
      using assms en by (simp add: createApp_def Let_def e1)
  qed
qed

lemma set_many:
  "set (many a p s c) = (\<lambda>k. (p + k, drop k s, c)) ` {..length (takeWhile (accepts a) s)}"
proof (induction s arbitrary: p)
  case Nil
  then show ?case by simp
next
  case (Cons x xs)
  show ?case
  proof (cases "accepts a x")
    case True
    have "(\<lambda>k. (p + k, drop k (x # xs), c)) ` {..Suc (length (takeWhile (accepts a) xs))}
        = insert (p, x # xs, c) ((\<lambda>k. (Suc p + k, drop k xs, c)) ` {..length (takeWhile (accepts a) xs)})"
      by (simp add: atMost_Suc_eq_insert_0 image_image)
    then show ?thesis
      using True by (simp add: Cons.IH)
  next
    case False
    then show ?thesis by simp
  qed
qed

lemma set_ms_Many1:
  "set (ms (Many1 a) (p, s, c)) =
     (\<lambda>k. (p + k, drop k s, c)) ` {1..length (takeWhile (accepts a) s)}"
proof (cases s)
  case Nil
  then show ?thesis by simp
next
  case (Cons x xs)
  show ?thesis
  proof (cases "accepts a x")
    case True
    have "{1..Suc (length (takeWhile (accepts a) xs))} = Suc ` {..length (takeWhile (accepts a) xs)}"
      by (simp add: atMost_atLeast0 image_Suc_atLeastAtMost)
    then show ?thesis
      using True Cons by (simp add: set_many image_image)
  next
    case False
    then show ?thesis using Cons by simp
  qed
qed

lemma set_ms_Seq: "set (ms (Seq r1 r2) st) = (\<Union>st' \<in> set (ms r1 st). set (ms r2 st'))"
  by simp

lemma prefix_single: "prefix [x] s \<longleftrightarrow> s \<noteq> [] \<and> hd s = x"
  by (cases s) auto

lemma set_ms_version:
  "set (ms rx_version (q, r, c)) =
     insert (q, r, c)
       (if r \<noteq> [] \<and> hd r = CHR ''@''
        then (\<lambda>k. (q + 1 + k, drop (1 + k) r, c(3 \<mapsto> take (1 + k) r)))
               ` {1..length (takeWhile (accepts Dot) (tl r))}
        else {})"
proof (cases "r \<noteq> [] \<and> hd r = CHR ''@''")
  case True
  then obtain r' where r: "r = CHR ''@'' # r'" by (cases r) auto
  have "set (ms (Seq (Str ''@'') (Many1 Dot)) (q, r, c)) =
          (\<lambda>k. (q + 1 + k, drop k r', c)) ` {1..length (takeWhile (accepts Dot) r')}"
    unfolding set_ms_Seq by (simp add: r set_ms_Many1 del: ms.simps(3))
  then have "set (ms (Group 3 (Seq (Str ''@'') (Many1 Dot))) (q, r, c)) =
          (\<lambda>k. (q + 1 + k, drop k r', c(3 \<mapsto> take (1 + k) r))) ` {1..length (takeWhile (accepts Dot) r')}"
    by (simp add: image_image del: ms.simps(3,4))
  then show ?thesis
    using True r by (auto simp: rx_version_def simp del: ms.simps(3,4,7))
next
  case False
  then have "ms (Seq (Str ''@'') (Many1 Dot)) (q, r, c) = []"
    by (auto simp: prefix_single)
  then show ?thesis
    using False by (auto simp: rx_version_def simp del: ms.simps(4))
qed

lemma set_ms_version_Eol:
  "set (ms (Seq rx_version Eol) (q, r, c)) =
     (if r = [] then {(q, [], c)}
      else if hd r = CHR ''@'' \<and> tl r \<noteq> [] \<and> list_all (accepts Dot) (tl r)
      then {(q + length r, [], c(3 \<mapsto> r))}
      else {})"
proof -
  have all: "list_all (accepts Dot) xs \<longleftrightarrow> length (takeWhile (accepts Dot) xs) = length xs" for xs
    by (metis length_takeWhile_le list_all_iff takeWhile_eq_all_conv takeWhile_eq_take length_take min.absorb2 order_refl take_all)
  show ?thesis
  proof (cases r)
    case Nil
    then show ?thesis unfolding set_ms_Seq set_ms_version by simp
  next
    case (Cons x r')
    have le: "length (takeWhile (accepts Dot) r') \<le> length r'"
      by (rule length_takeWhile_le)
    show ?thesis
      unfolding set_ms_Seq set_ms_version using Cons le
      by (auto simp: all Suc_le_eq split: if_splits)
  qed
qed

lemma set_ms_name:
  "set (ms rx_name (p, s, c)) =
     insert (p, s, c)
       ((\<lambda>k. (p + k, drop k s, c(2 \<mapsto> take k s)))
          ` {1..length (takeWhile (\<lambda>x. x \<noteq> CHR ''@'') s)})"
proof -
  have a: "accepts (NoneOf ''@'') = (\<lambda>x. x \<noteq> CHR ''@'')"
    by (rule ext) simp
  have "set (ms (Group 2 (Many1 (NoneOf ''@''))) (p, s, c)) =
          (\<lambda>k. (p + k, drop k s, c(2 \<mapsto> take k s)))
            ` {1..length (takeWhile (\<lambda>x. x \<noteq> CHR ''@'') s)}"
    by (simp add: set_ms_Many1 image_image a del: ms.simps(3))
  then show ?thesis
    by (auto simp: rx_name_def simp del: ms.simps(3,7))
qed

lemma version_Eol_inside_name:
  assumes "k < length (takeWhile (\<lambda>x. x \<noteq> CHR ''@'') s)"
  shows "ms (Seq rx_version Eol) (q, drop k s, c) = []"
proof -
  let ?n = "takeWhile (\<lambda>x. x \<noteq> CHR ''@'') s"
  have "k < length s"
    using assms length_takeWhile_le [of "\<lambda>x. x \<noteq> CHR ''@''" s] by simp
  then have ne: "drop k s \<noteq> []" by simp
  have "hd (drop k s) = s ! k"
    using \<open>k < length s\<close> by (simp add: hd_drop_conv_nth)
  also have "\<dots> = ?n ! k"
    using assms by (simp add: takeWhile_nth)
  finally have "hd (drop k s) \<in> set ?n"
    using assms by simp
  then have "hd (drop k s) \<noteq> CHR ''@''"
    by (auto dest: set_takeWhileD)
  then have "set (ms (Seq rx_version Eol) (q, drop k s, c)) = {}"
    unfolding set_ms_version_Eol using ne by simp
  then show ?thesis by simp
qed

lemma set_ms_name_version_Eol:
  "set (ms (Seq rx_name (Seq rx_version Eol)) (p, s, c)) = set_option (package_tail p s c)"
proof -
  let ?n = "takeWhile (\<lambda>x. x \<noteq> CHR ''@'') s"
  let ?r = "dropWhile (\<lambda>x. x \<noteq> CHR ''@'') s"
  let ?V = "\<lambda>st. set (ms (Seq rx_version Eol) st)"
  have s: "s = ?n @ ?r" by simp
  have len: "length s = length ?n + length ?r"
    by (metis s length_append)
  have dr: "drop (length ?n) s = ?r"
    by (metis s append_eq_conv_conj)
  have tk: "take (length ?n) s = ?n"
    by (metis s append_eq_conv_conj)
  have hd: "?r \<noteq> [] \<Longrightarrow> hd ?r = CHR ''@''"
    using hd_dropWhile [of "\<lambda>x. x \<noteq> CHR ''@''" s] by simp
  have inner: "\<And>k c'. k < length ?n \<Longrightarrow> ?V (p + k, drop k s, c') = {}"
    using version_Eol_inside_name by (simp del: ms.simps(4))
  have split: "{1..length ?n} = (if ?n = [] then {} else insert (length ?n) {1..<length ?n})"
    by (auto simp: Suc_le_eq)
  have U: "set (ms (Seq rx_name (Seq rx_version Eol)) (p, s, c)) =
        (if ?n = [] then ?V (p, s, c) else ?V (p + length ?n, ?r, c(2 \<mapsto> ?n)))"
  proof (cases "?n = []")
    case True
    then show ?thesis
      unfolding set_ms_Seq [of rx_name] set_ms_name by simp
  next
    case False
    have z: "?V (p, s, c) = {}"
      using inner [of 0 c] False by (simp del: ms.simps(4))
    have "(\<Union>k\<in>{1..<length ?n}. ?V (p + k, drop k s, c(2 \<mapsto> take k s))) = {}"
      using inner by (simp del: ms.simps(4))
    then show ?thesis
      unfolding set_ms_Seq [of rx_name] set_ms_name split using False z
      by (simp add: dr tk del: ms.simps(4))
  qed
  show ?thesis
  proof (cases "?n = []")
    case True
    then have "?r = s" using s by simp
    then show ?thesis
      unfolding U set_ms_version_Eol package_tail_def Let_def using True hd by auto
  next
    case False
    then show ?thesis
      unfolding U set_ms_version_Eol package_tail_def Let_def using hd len by auto
  qed
qed

lemma first_of_set_option: "set xs = set_option v \<Longrightarrow> first_of xs = v"
proof (cases v)
  case None
  assume "set xs = set_option v"
  with None show ?thesis by (simp add: first_of_def)
next
  case (Some x)
  assume "set xs = set_option v"
  with Some have s: "set xs = {x}" by simp
  then obtain y ys where xs: "xs = y # ys" by (cases xs) auto
  with s have "y = x" by auto
  with xs Some show ?thesis by (simp add: first_of_def)
qed

lemma first_of_append:
  "first_of (xs @ ys) = (case first_of xs of None \<Rightarrow> first_of ys | Some x \<Rightarrow> Some x)"
  by (cases xs) (simp_all add: first_of_def)

lemma slash_inside_scope:
  assumes "k < length (takeWhile (\<lambda>x. x \<noteq> CHR ''/'') s)"
  shows "\<not> prefix ''/'' (drop k s)"
proof -
  let ?m = "takeWhile (\<lambda>x. x \<noteq> CHR ''/'') s"
  have "k < length s"
    using assms length_takeWhile_le [of "\<lambda>x. x \<noteq> CHR ''/''" s] by simp
  then have ne: "drop k s \<noteq> []" by simp
  have "hd (drop k s) = s ! k"
    using \<open>k < length s\<close> by (simp add: hd_drop_conv_nth)
  also have "\<dots> = ?m ! k"
    using assms by (simp add: takeWhile_nth)
  finally have "hd (drop k s) \<in> set ?m"
    using assms by simp
  then have "hd (drop k s) \<noteq> CHR ''/''"
    by (auto dest: set_takeWhileD)
  then show ?thesis
    by (simp add: prefix_single)
qed

lemma set_ms_scope_group:
  "set (ms (Group 1 (Seq (Str ''@'') (Seq (Many1 (NoneOf ''/'')) (Str ''/'')))) (p, s, c)) =
     set_option (package_scope p s c)"
proof (cases "s \<noteq> [] \<and> hd s = CHR ''@''")
  case False
  then have "ms (Str ''@'') (p, s, c) = []"
    by (auto simp: prefix_single)
  then show ?thesis
    using False by (auto simp: package_scope_def Let_def)
next
  case True
  then obtain s1 where s: "s = CHR ''@'' # s1" by (cases s) auto
  let ?m = "takeWhile (\<lambda>x. x \<noteq> CHR ''/'') s1"
  let ?d = "dropWhile (\<lambda>x. x \<noteq> CHR ''/'') s1"
  let ?S = "\<lambda>st. set (ms (Str ''/'') st)"
  have a: "accepts (NoneOf ''/'') = (\<lambda>x. x \<noteq> CHR ''/'')"
    by (rule ext) simp
  have s1: "s1 = ?m @ ?d" by simp
  have dr: "drop (length ?m) s1 = ?d"
    by (metis s1 append_eq_conv_conj)
  have hd: "?d \<noteq> [] \<Longrightarrow> hd ?d = CHR ''/''"
    using hd_dropWhile [of "\<lambda>x. x \<noteq> CHR ''/''" s1] by simp
  have inner: "\<And>k. k < length ?m \<Longrightarrow> ?S (Suc p + k, drop k s1, c) = {}"
    using slash_inside_scope [of _ s1] by simp
  have last: "?S (Suc p + length ?m, ?d, c) =
          (if ?d = [] then {} else {(p + 2 + length ?m, tl ?d, c)})"
    using hd by (cases ?d) (auto simp: prefix_single)
  have split: "{1..length ?m} = (if ?m = [] then {} else insert (length ?m) {1..<length ?m})"
    by (auto simp: Suc_le_eq)
  have "set (ms (Seq (Many1 (NoneOf ''/'')) (Str ''/'')) (Suc p, s1, c)) =
          (if ?m = [] \<or> ?d = [] then {} else {(p + 2 + length ?m, tl ?d, c)})"
  proof (cases "?m = []")
    case True
    then show ?thesis
      unfolding set_ms_Seq set_ms_Many1 a by simp
  next
    case False
    have "(\<Union>k\<in>{1..<length ?m}. ?S (Suc p + k, drop k s1, c)) = {}"
      using inner by simp
    then show ?thesis
      unfolding set_ms_Seq set_ms_Many1 a split using False last
      by (simp add: dr del: ms.simps(1))
  qed
  then have "set (ms (Seq (Str ''@'') (Seq (Many1 (NoneOf ''/'')) (Str ''/''))) (p, s, c)) =
          (if ?m = [] \<or> ?d = [] then {} else {(p + 2 + length ?m, tl ?d, c)})"
    unfolding set_ms_Seq [of "Str ''@''"] by (simp add: s del: ms.simps(4))
  then show ?thesis
    by (auto simp: package_scope_def Let_def s simp del: ms.simps(4))
qed

lemma exec_from_Bol_later: "exec_from (Seq Bol r) (Suc p) s = None"
  by (induction s arbitrary: p) simp_all

lemma rx_match_Bol:
  "rx_match (Seq Bol r) s =
     map_option (\<lambda>(p', s', c). c(0 \<mapsto> take p' s)) (first_of (ms r (0, s, Map.empty)))"
proof (cases s)
  case Nil
  then show ?thesis
    by (simp add: rx_match_def first_of_def split: list.splits)
next
  case (Cons x xs)
  then show ?thesis
    by (simp add: rx_match_def first_of_def exec_from_Bol_later split: list.splits)
qed

lemma rx_test_Bol:
  "rx_test (Seq Bol r) s \<longleftrightarrow> ms r (0, s, Map.empty) \<noteq> []"
proof (cases s)
  case Nil
  then show ?thesis
    by (simp add: rx_test_def split: list.splits)
next
  case (Cons x xs)
  then show ?thesis
    by (simp add: rx_test_def exec_from_Bol_later split: list.splits)
qed

lemma first_of_ms_package:
  "first_of (ms (Seq rx_scope (Seq rx_name (Seq rx_version Eol))) (0, t, Map.empty)) = package_parse t"
proof -
  let ?R = "Seq rx_name (Seq rx_version Eol)"
  let ?G = "Group 1 (Seq (Str ''@'') (Seq (Many1 (NoneOf ''/'')) (Str ''/'')))"
  let ?F = "filter (\<lambda>st'. fst st' \<noteq> 0) (ms ?G (0, t, Map.empty))"
  have l: "ms (Seq rx_scope ?R) (0, t, Map.empty) =
             concat (map (ms ?R) ?F) @ ms ?R (0, t, Map.empty)"
  proof -
    have "ms rx_scope (0, t, Map.empty) = ?F @ [(0, t, Map.empty)]"
      unfolding rx_scope_def by (rule ms.simps(6))
    then show ?thesis
      unfolding ms.simps(4) [of rx_scope ?R] by (simp del: ms.simps)
  qed
  have F: "set ?F = set_option (package_scope 0 t Map.empty)"
    unfolding set_filter set_ms_scope_group by (auto simp: package_scope_def Let_def)
  have "set (concat (map (ms ?R) ?F)) =
          set_option (Option.bind (package_scope 0 t Map.empty) (\<lambda>(p, s, c). package_tail p s c))"
    unfolding set_concat set_map F
    by (cases "package_scope 0 t Map.empty") (auto simp: set_ms_name_version_Eol simp del: ms.simps(4))
  then have 1: "first_of (concat (map (ms ?R) ?F)) =
          Option.bind (package_scope 0 t Map.empty) (\<lambda>(p, s, c). package_tail p s c)"
    by (rule first_of_set_option)
  have 2: "first_of (ms ?R (0, t, Map.empty)) = package_tail 0 t Map.empty"
    by (rule first_of_set_option) (rule set_ms_name_version_Eol)
  show ?thesis
    unfolding l first_of_append 1 2 package_parse_def by (simp split: option.splits)
qed

lemma rx_match_package:
  "rx_match rx_package t = map_option (\<lambda>(p', s', c). c(0 \<mapsto> take p' t)) (package_parse t)"
  unfolding rx_package_def rx_match_Bol first_of_ms_package ..

lemma takeWhile_run:
  assumes "\<forall>x\<in>set n. P x" and "r = [] \<or> \<not> P (hd r)"
  shows "takeWhile P (n @ r) = n" and "dropWhile P (n @ r) = r"
proof -
  have t: "takeWhile P r = []" using assms(2) by (cases r) auto
  have d: "dropWhile P r = r" using assms(2) by (cases r) auto
  show "takeWhile P (n @ r) = n"
    using assms(1) t by (simp add: takeWhile_append2)
  show "dropWhile P (n @ r) = r"
    using assms(1) d by (simp add: dropWhile_append2)
qed

lemma list_all_Dot: "list_all (accepts Dot) V \<longleftrightarrow> CHR 0x0A \<notin> set V \<and> CHR 0x0D \<notin> set V"
  by (induction V) auto

lemma package_tail_name:
  assumes "NAME \<noteq> []" and "CHR ''@'' \<notin> set NAME"
    and "ve = [] \<or> (\<exists>V. ve = ''@'' @ V \<and> V \<noteq> [] \<and> CHR 0x0A \<notin> set V \<and> CHR 0x0D \<notin> set V)"
  shows "package_tail p (NAME @ ve) c =
           Some (p + length (NAME @ ve), [], if ve = [] then c(2 \<mapsto> NAME) else c(2 \<mapsto> NAME, 3 \<mapsto> ve))"
proof -
  have a: "\<forall>x\<in>set NAME. x \<noteq> CHR ''@''" using assms(2) by auto
  have b: "ve = [] \<or> \<not> hd ve \<noteq> CHR ''@''" using assms(3) by auto
  note tw = takeWhile_run [of NAME "\<lambda>x. x \<noteq> CHR ''@''" ve, OF a b]
  show ?thesis
    unfolding package_tail_def Let_def tw using assms(1,3)
    by (auto simp: list_all_Dot)
qed

lemma rx_test_file: "rx_test rx_file t \<longleftrightarrow> prefix ''file:'' t"
  unfolding rx_file_def rx_test_Bol by simp

lemma package_tail_Some_iff:
  "package_tail p s c \<noteq> None \<longleftrightarrow>
     (\<exists>n ve. s = n @ ve \<and> CHR ''@'' \<notin> set n
        \<and> (ve = [] \<or> (\<exists>V. ve = ''@'' @ V \<and> V \<noteq> [] \<and> CHR 0x0A \<notin> set V \<and> CHR 0x0D \<notin> set V)))"
  (is "?L \<longleftrightarrow> ?R")
proof
  assume ?L
  let ?n = "takeWhile (\<lambda>x. x \<noteq> CHR ''@'') s"
  let ?r = "dropWhile (\<lambda>x. x \<noteq> CHR ''@'') s"
  have hd: "?r \<noteq> [] \<Longrightarrow> hd ?r = CHR ''@''"
    using hd_dropWhile [of "\<lambda>x. x \<noteq> CHR ''@''" s] by simp
  have n: "CHR ''@'' \<notin> set ?n"
    by (auto dest: set_takeWhileD)
  have "?r = [] \<or> (\<exists>V. ?r = ''@'' @ V \<and> V \<noteq> [] \<and> CHR 0x0A \<notin> set V \<and> CHR 0x0D \<notin> set V)"
  proof (cases "?r = []")
    case False
    then have "?r = ''@'' @ tl ?r" using hd by (cases ?r) auto
    moreover have "tl ?r \<noteq> [] \<and> list_all (accepts Dot) (tl ?r)"
      using \<open>?L\<close> False by (auto simp: package_tail_def Let_def split: if_splits)
    ultimately show ?thesis
      unfolding list_all_Dot by metis
  qed simp
  then show ?R
    using n by (intro exI [of _ ?n] exI [of _ ?r]) simp
next
  assume ?R
  then obtain n ve where s: "s = n @ ve" and n: "CHR ''@'' \<notin> set n"
    and ve: "ve = [] \<or> (\<exists>V. ve = ''@'' @ V \<and> V \<noteq> [] \<and> CHR 0x0A \<notin> set V \<and> CHR 0x0D \<notin> set V)"
    by blast
  have a: "\<forall>x\<in>set n. x \<noteq> CHR ''@''" using n by auto
  have b: "ve = [] \<or> \<not> hd ve \<noteq> CHR ''@''" using ve by auto
  note tw = takeWhile_run [of n "\<lambda>x. x \<noteq> CHR ''@''" ve, OF a b]
  show ?L
    unfolding package_tail_def Let_def s tw using ve by (auto simp: list_all_Dot)
qed

lemma package_scope_Some_iff:
  "package_scope p s c = Some (q, s', c') \<longleftrightarrow>
     (\<exists>S. s = ''@'' @ S @ ''/'' @ s' \<and> S \<noteq> [] \<and> CHR ''/'' \<notin> set S
        \<and> q = p + 2 + length S \<and> c' = c(1 \<mapsto> ''@'' @ S @ ''/''))"
  (is "?L \<longleftrightarrow> ?R")
proof
  assume l: ?L
  then have "s \<noteq> [] \<and> hd s = CHR ''@''"
    by (auto simp: package_scope_def Let_def split: if_splits)
  then obtain s1 where s1: "s = CHR ''@'' # s1" by (cases s) auto
  let ?m = "takeWhile (\<lambda>x. x \<noteq> CHR ''/'') s1"
  let ?d = "dropWhile (\<lambda>x. x \<noteq> CHR ''/'') s1"
  from l have c: "?m \<noteq> []" "?d \<noteq> []"
    and r: "q = p + 2 + length ?m" "s' = tl ?d" "c' = c(1 \<mapsto> take (2 + length ?m) s)"
    by (auto simp: package_scope_def Let_def s1 split: if_splits)
  have hd: "hd ?d = CHR ''/''"
    using c(2) hd_dropWhile [of "\<lambda>x. x \<noteq> CHR ''/''" s1] by simp
  have d: "?d = CHR ''/'' # s'" using c(2) hd r(2) by (cases ?d) auto
  have "s1 = ?m @ ?d" by simp
  then have s1': "s1 = ?m @ CHR ''/'' # s'" unfolding d .
  have tk: "take (Suc (length ?m)) s1 = ?m @ ''/''"
    by (subst s1') simp
  have "CHR ''/'' \<notin> set ?m"
    by (auto dest: set_takeWhileD)
  then show ?R
    using s1' c(1) r tk by (intro exI [of _ ?m]) (simp add: s1)
next
  assume ?R
  then obtain S where s: "s = ''@'' @ S @ ''/'' @ s'" and S: "S \<noteq> []" "CHR ''/'' \<notin> set S"
    and r: "q = p + 2 + length S" "c' = c(1 \<mapsto> ''@'' @ S @ ''/'')"
    by blast
  have tl: "tl s = S @ CHR ''/'' # s'" by (simp add: s)
  have a: "\<forall>x\<in>set S. x \<noteq> CHR ''/''" using S(2) by auto
  have b: "CHR ''/'' # s' = [] \<or> \<not> hd (CHR ''/'' # s') \<noteq> CHR ''/''" by simp
  note tw = takeWhile_run [of S "\<lambda>x. x \<noteq> CHR ''/''" "CHR ''/'' # s'", OF a b]
  show ?L
    unfolding package_scope_def Let_def tl tw using S(1) r by (simp add: s)
qed

lemma package_parse_Some_iff:
  "package_parse t \<noteq> None \<longleftrightarrow>
     (\<exists>sc n ve. t = sc @ n @ ve
        \<and> (sc = [] \<or> (\<exists>S. sc = ''@'' @ S @ ''/'' \<and> S \<noteq> [] \<and> CHR ''/'' \<notin> set S))
        \<and> CHR ''@'' \<notin> set n
        \<and> (ve = [] \<or> (\<exists>V. ve = ''@'' @ V \<and> V \<noteq> [] \<and> CHR 0x0A \<notin> set V \<and> CHR 0x0D \<notin> set V)))"
  (is "?L \<longleftrightarrow> ?R")
proof
  assume ?L
  show ?R
  proof (cases "Option.bind (package_scope 0 t Map.empty) (\<lambda>(p, s, c). package_tail p s c)")
    case None
    then have "package_tail 0 t Map.empty \<noteq> None"
      using \<open>?L\<close> by (simp add: package_parse_def)
    then obtain n ve where "t = n @ ve" "CHR ''@'' \<notin> set n"
      "ve = [] \<or> (\<exists>V. ve = ''@'' @ V \<and> V \<noteq> [] \<and> CHR 0x0A \<notin> set V \<and> CHR 0x0D \<notin> set V)"
      unfolding package_tail_Some_iff by blast
    then show ?thesis
      by (intro exI [of _ "[]"] exI [of _ n] exI [of _ ve]) simp
  next
    case (Some st)
    then obtain q s' c' where sc: "package_scope 0 t Map.empty = Some (q, s', c')"
      and tl': "package_tail q s' c' = Some st"
      by (cases "package_scope 0 t Map.empty") auto
    then have tl: "package_tail q s' c' \<noteq> None" by simp
    from sc obtain S where S: "t = ''@'' @ S @ ''/'' @ s'" "S \<noteq> []" "CHR ''/'' \<notin> set S"
      unfolding package_scope_Some_iff by blast
    from tl obtain n ve where n: "s' = n @ ve" "CHR ''@'' \<notin> set n"
      "ve = [] \<or> (\<exists>V. ve = ''@'' @ V \<and> V \<noteq> [] \<and> CHR 0x0A \<notin> set V \<and> CHR 0x0D \<notin> set V)"
      unfolding package_tail_Some_iff by blast
    show ?thesis
      using S n by (intro exI [of _ "''@'' @ S @ ''/''"] exI [of _ n] exI [of _ ve]) auto
  qed
next
  assume ?R
  then obtain sc n ve where t: "t = sc @ n @ ve"
    and sc: "sc = [] \<or> (\<exists>S. sc = ''@'' @ S @ ''/'' \<and> S \<noteq> [] \<and> CHR ''/'' \<notin> set S)"
    and n: "CHR ''@'' \<notin> set n"
    and ve: "ve = [] \<or> (\<exists>V. ve = ''@'' @ V \<and> V \<noteq> [] \<and> CHR 0x0A \<notin> set V \<and> CHR 0x0D \<notin> set V)"
    by blast
  have tail: "\<And>p c. package_tail p (n @ ve) c \<noteq> None"
    unfolding package_tail_Some_iff using n ve by blast
  show ?L
  proof (cases "sc = []")
    case True
    then show ?thesis
      using tail [of 0 Map.empty] t by (auto simp: package_parse_def split: option.splits)
  next
    case False
    then obtain S where S: "sc = ''@'' @ S @ ''/''" "S \<noteq> []" "CHR ''/'' \<notin> set S"
      using sc by blast
    have "package_scope 0 t Map.empty = Some (0 + 2 + length S, n @ ve, [1 \<mapsto> ''@'' @ S @ ''/''])"
      unfolding package_scope_Some_iff using S t by (intro exI [of _ S]) simp
    then show ?thesis
      using tail [of "0 + 2 + length S" "[1 \<mapsto> ''@'' @ S @ ''/'']"]
      by (auto simp: package_parse_def split: option.splits)
  qed
qed

lemma package_tail_captures:
  assumes "package_tail p s c0 = Some (q, s', c)" and "c0 2 = None" and "c0 3 = None"
  shows "or_empty (c 2) @ or_empty (c 3) = s" and "c 1 = c0 1"
    and "CHR ''@'' \<notin> set (or_empty (c 2))"
proof -
  let ?n = "takeWhile (\<lambda>x. x \<noteq> CHR ''@'') s"
  let ?r = "dropWhile (\<lambda>x. x \<noteq> CHR ''@'') s"
  let ?c = "if ?n = [] then c0 else c0(2 \<mapsto> ?n)"
  have c: "c = (if ?r = [] then ?c else ?c(3 \<mapsto> ?r))"
    using assms(1) by (auto simp: package_tail_def Let_def split: if_splits)
  have n: "or_empty (c 2) = ?n"
    using assms(2) by (simp add: c or_empty_def)
  have r: "or_empty (c 3) = ?r"
  proof (cases "?r = []")
    case True
    then have "c 3 = None" using assms(3) unfolding c by (simp del: dropWhile_eq_Nil_conv)
    then show ?thesis using True by (simp add: or_empty_def del: dropWhile_eq_Nil_conv)
  next
    case False
    then have "c 3 = Some ?r" unfolding c by (simp del: dropWhile_eq_Nil_conv)
    then show ?thesis by (simp add: or_empty_def)
  qed
  show "or_empty (c 2) @ or_empty (c 3) = s"
    unfolding n r by simp
  show "c 1 = c0 1"
    by (simp add: c)
  show "CHR ''@'' \<notin> set (or_empty (c 2))"
    unfolding n by (auto dest: set_takeWhileD)
qed

lemma package_parse_captures:
  assumes "package_parse t = Some (q, s', c)"
  shows "or_empty (c 1) @ or_empty (c 2) @ or_empty (c 3) = t"
    and "CHR ''@'' \<notin> set (or_empty (c 2))"
proof -
  have "or_empty (c 1) @ or_empty (c 2) @ or_empty (c 3) = t
        \<and> CHR ''@'' \<notin> set (or_empty (c 2))"
  proof (cases "Option.bind (package_scope 0 t Map.empty) (\<lambda>(p, s, c). package_tail p s c)")
    case None
    then have tl: "package_tail 0 t Map.empty = Some (q, s', c)"
      using assms by (simp add: package_parse_def)
    show ?thesis
      using package_tail_captures [OF tl] by (simp add: or_empty_def)
  next
    case (Some st)
    then have st: "st = (q, s', c)"
      using assms by (simp add: package_parse_def)
    from Some obtain p1 s1 c1 where sc: "package_scope 0 t Map.empty = Some (p1, s1, c1)"
      and tl: "package_tail p1 s1 c1 = Some (q, s', c)"
      unfolding st by (cases "package_scope 0 t Map.empty") auto
    from sc obtain S where S: "t = ''@'' @ S @ ''/'' @ s1" "c1 = [1 \<mapsto> ''@'' @ S @ ''/'']"
      unfolding package_scope_Some_iff by blast
    have "c1 2 = None" "c1 3 = None" by (simp_all add: S(2))
    from package_tail_captures [OF tl this] show ?thesis
      by (simp add: S or_empty_def)
  qed
  then show "or_empty (c 1) @ or_empty (c 2) @ or_empty (c 3) = t"
    and "CHR ''@'' \<notin> set (or_empty (c 2))"
    by simp_all
qed

section \<open>Evaluation of the patterns\<close>

lemmas rx_defs =
  rx_test_def rx_match_def rx_file_def rx_file_path_def rx_archive_def rx_package_def
  rx_scope_def rx_name_def rx_version_def

section \<open>Template identifiers that carry the prefix\<close>

text \<open>
  On the branch of package names the result is never the template itself: the name
  group holds no \<^verbatim>\<open>@\<close>, so it neither equals nor starts with the default
  \<^verbatim>\<open>@hackermans/cba-template\<close>, and the two other branches add the default to
  what was matched.
\<close>

lemma getTemplateInstallPackage_never_unchanged:
  assumes "t \<noteq> []" and "\<not> rx_test rx_file t" and "\<not> includes_str ''://'' t"
    and "\<not> rx_test rx_archive t"
  shows "getTemplateInstallPackage wd (Some t) originalDirectory \<noteq> Inr t"
proof (cases "package_parse t")
  case None
  then show ?thesis
    using assms by (simp add: getTemplateInstallPackage_def rx_match_package)
next
  case (Some st)
  obtain q s' c where st: "st = (q, s', c)" by (cases st)
  let ?scope = "or_empty (c 1)" and ?name = "or_empty (c 2)" and ?version = "or_empty (c 3)"
  note cap = package_parse_captures [OF Some [unfolded st]]
  have n1: "?name \<noteq> ''@hackermans/cba-template''"
    using cap(2) by auto
  have n2: "\<not> startsWith ?name (''@hackermans/cba-template'' @ ''-'')"
    using cap(2) by (auto simp: startsWith_def prefix_def)
  have r: "getTemplateInstallPackage wd (Some t) originalDirectory =
             (if ?version \<noteq> [] \<and> ?scope = [] \<and> ?name = []
              then Inr (?version @ ''/'' @ ''@hackermans/cba-template'')
              else Inr (?scope @ ''@hackermans/cba-template'' @ ''-'' @ ?name @ ?version))"
    using assms n1 n2 Some
    by (simp add: getTemplateInstallPackage_def rx_match_package st Let_def)
  have l: "length t = length ?scope + length ?name + length ?version"
    using cap(1) by (metis length_append add.assoc)
  show ?thesis
  proof
    assume "getTemplateInstallPackage wd (Some t) originalDirectory = Inr t"
    then have "length t = length (?version @ ''/'' @ ''@hackermans/cba-template'') \<and> ?scope = [] \<and> ?name = []
             \<or> length t = length (?scope @ ''@hackermans/cba-template'' @ ''-'' @ ?name @ ?version)"
      unfolding r by (auto split: if_splits)
    then show False
      using l by auto
  qed
qed

text \<open>
  Claim C1 says that an identifier already carrying the prefix \<^verbatim>\<open>cba-template\<close>
  (alone or as \<^verbatim>\<open>cba-template-NAME\<close>, with or without a scope and a version) is
  returned unchanged. The source compares the name with its default
  \<^verbatim>\<open>@hackermans/cba-template\<close>, which no name without \<^verbatim>\<open>@\<close> equals or starts
  with, so the branch that returns the identifier unchanged is never taken: the
  identifiers of the claim get the default spliced in like any other name.
\<close>

theorem getTemplateInstallPackage_prefixed_changed:
  "getTemplateInstallPackage wd (Some ''cba-template'') originalDirectory
     = Inr ''@hackermans/cba-template-cba-template''
   \<and> getTemplateInstallPackage wd (Some ''cba-template-ts@1.0.0'') originalDirectory
     = Inr ''@hackermans/cba-template-cba-template-ts@1.0.0''
   \<and> getTemplateInstallPackage wd (Some ''@my/cba-template'') originalDirectory
     = Inr ''@my/@hackermans/cba-template-cba-template''
   \<and> getTemplateInstallPackage wd (Some ''@hackermans/cba-template'') originalDirectory
     = Inr ''@hackermans/@hackermans/cba-template-cba-template''"
  by (simp add: getTemplateInstallPackage_def rx_defs or_empty_def startsWith_def)

section \<open>Template identifiers without the prefix\<close>

text \<open>
  Claim C2 says that a name without the prefix gets the prefix \<^verbatim>\<open>cba-template\<close>
  spliced in between its scope and the name. The source splices its default
  \<^verbatim>\<open>@hackermans/cba-template\<close> in, scope included: the name \<^verbatim>\<open>ts\<close> becomes
  \<^verbatim>\<open>@hackermans/cba-template-ts\<close> and not \<^verbatim>\<open>cba-template-ts\<close>, and the scoped
  \<^verbatim>\<open>@my/ts@1.2.0\<close> becomes \<^verbatim>\<open>@my/@hackermans/cba-template-ts@1.2.0\<close> and not
  \<^verbatim>\<open>@my/cba-template-ts@1.2.0\<close>.
\<close>

theorem getTemplateInstallPackage_prefix_counterexample:
  "getTemplateInstallPackage ''/home/u'' (Some ''ts'') ''/home/u''
     = Inr ''@hackermans/cba-template-ts''
   \<and> getTemplateInstallPackage ''/home/u'' (Some ''ts'') ''/home/u''
     \<noteq> Inr ''cba-template-ts''
   \<and> getTemplateInstallPackage ''/home/u'' (Some ''@my/ts@1.2.0'') ''/home/u''
     = Inr ''@my/@hackermans/cba-template-ts@1.2.0''
   \<and> getTemplateInstallPackage ''/home/u'' (Some ''@my/ts@1.2.0'') ''/home/u''
     \<noteq> Inr ''@my/cba-template-ts@1.2.0''"
  by (simp add: getTemplateInstallPackage_def rx_defs or_empty_def startsWith_def)

text \<open>
  Claim C2, amended. For a name \<open>NAME\<close> without scope (not empty, without \<^verbatim>\<open>@\<close>) that
  does not carry the prefix (it is not \<^verbatim>\<open>cba-template\<close> and does not start with
  \<^verbatim>\<open>cba-template-\<close>), with or without a version \<^verbatim>\<open>@VERSION\<close> (\<open>VERSION\<close> not empty,
  without line terminator), and not of the \<^verbatim>\<open>file:\<close>, URL or archive form, the result
  is the default package \<^verbatim>\<open>@hackermans/cba-template\<close>, then \<^verbatim>\<open>-NAME\<close>, then the
  version.
\<close>

theorem getTemplateInstallPackage_unscoped_name:
  assumes "NAME \<noteq> []" and "CHR ''@'' \<notin> set NAME"
    and "NAME \<noteq> ''cba-template''" and "\<not> prefix ''cba-template-'' NAME"
    and "ve = [] \<or> (\<exists>VERSION. ve = ''@'' @ VERSION \<and> VERSION \<noteq> []
                       \<and> CHR 0x0A \<notin> set VERSION \<and> CHR 0x0D \<notin> set VERSION)"
    and "\<not> rx_test rx_file (NAME @ ve)"
    and "\<not> includes_str ''://'' (NAME @ ve)"
    and "\<not> rx_test rx_archive (NAME @ ve)"
  shows "getTemplateInstallPackage wd (Some (NAME @ ve)) originalDirectory =
           Inr (''@hackermans/cba-template'' @ ''-'' @ NAME @ ve)"
proof -
  let ?t = "NAME @ ve"
  have "hd ?t \<noteq> CHR ''@''"
    using assms(1,2) by (cases NAME) auto
  then have "package_scope 0 ?t Map.empty = None"
    by (simp add: package_scope_def Let_def)
  then have parse: "package_parse ?t =
      Some (length ?t, [], if ve = [] then [2 \<mapsto> NAME] else [2 \<mapsto> NAME, 3 \<mapsto> ve])"
    using package_tail_name [OF assms(1,2,5), of 0 Map.empty]
    by (simp add: package_parse_def)
  have ne: "?t \<noteq> []" using assms(1) by simp
  have n1: "NAME \<noteq> ''@hackermans/cba-template''"
    using assms(2) by auto
  have n2: "\<not> startsWith NAME (''@hackermans/cba-template'' @ ''-'')"
    using assms(2) by (auto simp: startsWith_def prefix_def)
  show ?thesis
    using assms(1,6,7,8) ne n1 n2
    by (simp add: getTemplateInstallPackage_def rx_match_package parse or_empty_def)
qed

theorem getTemplateInstallPackage_unscoped_name_witness:
  "getTemplateInstallPackage ''/home/u'' (Some ''ts@1.2.0'') ''/home/u''
     = Inr ''@hackermans/cba-template-ts@1.2.0''
   \<and> getTemplateInstallPackage ''/home/u'' (Some ''typescript'') ''/home/u''
     = Inr ''@hackermans/cba-template-typescript''"
proof -
  have v: "''@1.2.0'' = [] \<or> (\<exists>VERSION. ''@1.2.0'' = ''@'' @ VERSION \<and> VERSION \<noteq> []
              \<and> CHR 0x0A \<notin> set VERSION \<and> CHR 0x0D \<notin> set VERSION)"
    by (intro disjI2 exI [of _ "''1.2.0''"]) simp
  have 1: "getTemplateInstallPackage ''/home/u'' (Some (''ts'' @ ''@1.2.0'')) ''/home/u''
     = Inr (''@hackermans/cba-template'' @ ''-'' @ ''ts'' @ ''@1.2.0'')"
    by (rule getTemplateInstallPackage_unscoped_name [OF _ _ _ _ v]) (simp_all add: rx_defs)
  have 2: "getTemplateInstallPackage ''/home/u'' (Some (''typescript'' @ [])) ''/home/u''
     = Inr (''@hackermans/cba-template'' @ ''-'' @ ''typescript'' @ [])"
    by (rule getTemplateInstallPackage_unscoped_name) (simp_all add: rx_defs)
  show ?thesis
    using 1 2 by simp
qed

section \<open>createApp and the directory it finds\<close>




section \<open>The failure handler of run\<close>

text \<open>
  Claim C4. Whatever the directory the failed install leaves (a child whose status is not
  0, \<^verbatim>\<open>null\<close> included), \<^verbatim>\<open>run\<close> deletes the entries named \<^verbatim>\<open>package.json\<close> and
  \<^verbatim>\<open>node_modules\<close>, leaves every other entry as it is, deletes the directory itself
  exactly when nothing is left, and exits with status 1.
\<close>

theorem run_install_failure_cleanup:
  assumes "getTemplateInstallPackage (cwd e) template originalDirectory = Inr t"
    and "checkIfOnline e isYarn = Return isOnline"
    and "install_command root isYarn [''@babel/core'', ''@babel/preset-env'', t] verbose isOnline
           = (command, args)"
    and "child e command args (files w) = (status, Some d)"
    and "status \<noteq> Some 0"
  shows "fst (run e root appName verbose originalDirectory template isYarn w) = Exit 1
       \<and> files (snd (run e root appName verbose originalDirectory template isYarn w)) =
           (if filter (\<lambda>en. fst en \<noteq> ''package.json'' \<and> fst en \<noteq> ''node_modules'') d = []
            then None
            else Some (filter (\<lambda>en. fst en \<noteq> ''package.json'' \<and> fst en \<noteq> ''node_modules'') d))"
proof -
  let ?w' = "w\<lparr>files := Some d, effects := effects w @ [Spawn command args]\<rparr>"
  have i: "install e root isYarn [''@babel/core'', ''@babel/preset-env'', t] verbose isOnline w
             = (Inl (command @ '' '' @ join_space args), ?w')"
    using assms(3-5) by (simp add: install_def sync_def)
  have r: "run e root appName verbose originalDirectory template isYarn w = run_catch ?w'"
    using assms(1,2) i by (simp add: run_unfold)
  have f: "files ?w' = Some d" by simp
  show ?thesis
    unfolding r using run_catch_files [OF f] by (simp add: Let_def)
qed

theorem run_install_failure_cleanup_witness:
  "fst (run \<lparr>cwd = ''/home/u/app'',
      validateProjectName =
        (\<lambda>n. \<lparr>validForNewPackages = True, errors = None, warnings = None\<rparr>),
      npmReportsCwd = True,
      dnsLookupOk = True,
      child = (\<lambda>c a d. (Some 1, Some [(''package.json'', Other), (''notes.txt'', Other),
                                       (''node_modules'', Other)]))\<rparr>
          ''/home/u/app'' ''app'' False ''/home/u'' None False
          \<lparr>files = Some [(''package.json'', Other), (''notes.txt'', Other)], effects = []\<rparr>)
     = Exit 1
   \<and> files (snd (run \<lparr>cwd = ''/home/u/app'',
       validateProjectName =
         (\<lambda>n. \<lparr>validForNewPackages = True, errors = None, warnings = None\<rparr>),
       npmReportsCwd = True, dnsLookupOk = True,
       child = (\<lambda>c a d. (Some 1, Some [(''package.json'', Other),
                                        (''notes.txt'', Other),
                                        (''node_modules'', Other)]))\<rparr>
          ''/home/u/app'' ''app'' False ''/home/u'' None False
          \<lparr>files = Some [(''package.json'', Other), (''notes.txt'', Other)], effects = []\<rparr>))
     = Some [(''notes.txt'', Other)]"
  using run_install_failure_cleanup
    [of "\<lparr>cwd = ''/home/u/app'',
        validateProjectName =
          (\<lambda>n. \<lparr>validForNewPackages = True, errors = None, warnings = None\<rparr>),
        npmReportsCwd = True,
        dnsLookupOk = True,
        child = (\<lambda>c a d. (Some 1, Some [(''package.json'', Other), (''notes.txt'', Other),
                                         (''node_modules'', Other)]))\<rparr>"
        None "''/home/u''" "''@hackermans/cba-template''" False True "''/home/u/app''" False
        "''npm''"
        "[''install'', ''--no-audit'', ''--save-exact'', ''--loglevel'', ''error'',
          ''@babel/core'', ''@babel/preset-env'', ''@hackermans/cba-template'']"
        "\<lparr>files = Some [(''package.json'', Other), (''notes.txt'', Other)], effects = []\<rparr>"
        "Some 1"
        "[(''package.json'', Other), (''notes.txt'', Other), (''node_modules'', Other)]"
        "''app''"]
  by (simp add: getTemplateInstallPackage_def checkIfOnline_def install_command_def)

section \<open>The manifest merge\<close>

lemma map_of_js_set:
  "map_of (js_set obj key v) k =
     (if key = ''__proto__'' \<and> map_of obj key = None then map_of obj k
      else if k = key then Some v else map_of obj k)"
  by (auto simp: js_set_def update_conv')

lemma map_of_replace_other:
  "k \<notin> set keys \<Longrightarrow>
     map_of (fold (\<lambda>key app. case js_get templatePackage key of
                               None \<Rightarrow> app
                             | Some v \<Rightarrow> js_set app key v) keys app) k = map_of app k"
proof (induction keys arbitrary: app)
  case Nil
  then show ?case by simp
next
  case (Cons key keys)
  then show ?case
    by (cases "js_get templatePackage key") (auto simp: map_of_js_set)
qed

lemma map_of_replace_key:
  assumes "k \<in> set keys" and "js_get templatePackage k = Some v"
    and "k \<noteq> ''__proto__'' \<or> map_of app k \<noteq> None"
  shows "map_of (fold (\<lambda>key app. case js_get templatePackage key of
                               None \<Rightarrow> app
                             | Some v \<Rightarrow> js_set app key v) keys app) k = Some v"
  using assms
proof (induction keys arbitrary: app)
  case Nil
  then show ?case by simp
next
  case (Cons key keys)
  let ?step = "\<lambda>key app. case js_get templatePackage key of
                            None \<Rightarrow> app | Some v \<Rightarrow> js_set app key v"
  show ?case
  proof (cases "key = k")
    case True
    have s: "map_of (?step key app) k = Some v"
      using True Cons.prems(2,3) by (auto simp: map_of_js_set)
    show ?thesis
    proof (cases "k \<in> set keys")
      case True
      then show ?thesis
        using Cons.IH [of "?step key app"] Cons.prems(2) s by simp
    next
      case False
      then show ?thesis
        using map_of_replace_other [of k keys templatePackage "?step key app"] s by simp
    qed
  next
    case False
    then have in_keys: "k \<in> set keys" using Cons.prems(1) by simp
    have "map_of (?step key app) k = map_of app k"
      using False by (cases "js_get templatePackage key") (auto simp: map_of_js_set)
    then show ?thesis
      using Cons.IH [of "?step key app"] in_keys Cons.prems(2,3) by simp
  qed
qed

text \<open>
  What the merge does for every manifest and every fragment: a key of the blacklist
  keeps the value of the app manifest, and a key of the fragment outside the blacklist
  and outside \<^verbatim>\<open>dependencies\<close> and \<^verbatim>\<open>scripts\<close> gets the value of the fragment,
  unless it is \<^verbatim>\<open>__proto__\<close> and the app manifest has no property of that name.
\<close>

lemma initializeTemplate_manifest_merge:
  assumes "initializeTemplate_manifest appPackage templatePackage isYarn = Inr written"
  shows "k \<in> set templatePackageBlacklist \<Longrightarrow> map_of written k = map_of appPackage k"
    and "k \<in> fst ` set templatePackage \<Longrightarrow> k \<notin> set templatePackageBlacklist \<Longrightarrow>
         k \<notin> set templatePackageToMerge \<Longrightarrow>
         k \<noteq> ''__proto__'' \<or> map_of appPackage k \<noteq> None \<Longrightarrow>
         map_of written k = map_of templatePackage k"
proof -
  let ?keys = "filter (\<lambda>key. key \<notin> set templatePackageBlacklist \<and> key \<notin> set templatePackageToMerge)
              (map fst templatePackage)"
  let ?app1 = "js_set appPackage ''dependencies'' (or_object (js_get appPackage ''dependencies''))"
  let ?step = "\<lambda>key app. case js_get templatePackage key of
                            None \<Rightarrow> app | Some v \<Rightarrow> js_set app key v"
  from assms obtain scripts where
    w: "written = fold ?step ?keys (js_set ?app1 ''scripts'' (JObj scripts))"
    by (auto simp: initializeTemplate_manifest_def Let_def split: sum.splits if_splits)
  let ?app2 = "js_set ?app1 ''scripts'' (JObj scripts)"
  have app2: "\<And>k. k \<noteq> ''dependencies'' \<Longrightarrow> k \<noteq> ''scripts'' \<Longrightarrow> map_of ?app2 k = map_of appPackage k"
    by (simp add: map_of_js_set)
  show "map_of written k = map_of appPackage k" if b: "k \<in> set templatePackageBlacklist"
  proof -
    have "k \<noteq> ''dependencies'' \<and> k \<noteq> ''scripts''"
      using b by (auto simp: templatePackageBlacklist_def)
    moreover have "k \<notin> set ?keys" using b by simp
    ultimately show ?thesis
      unfolding w using map_of_replace_other [of k ?keys templatePackage ?app2] app2 by simp
  qed
  show "map_of written k = map_of templatePackage k"
    if t: "k \<in> fst ` set templatePackage" and nb: "k \<notin> set templatePackageBlacklist"
      and nm: "k \<notin> set templatePackageToMerge"
      and np: "k \<noteq> ''__proto__'' \<or> map_of appPackage k \<noteq> None"
  proof -
    obtain v where v: "map_of templatePackage k = Some v"
      using t by (metis domIff dom_map_of_conv_image_fst not_Some_eq)
    have ks: "k \<noteq> ''dependencies'' \<and> k \<noteq> ''scripts''"
      using nm by (simp add: templatePackageToMerge_def)
    have "k \<in> set ?keys" using t nb nm by auto
    moreover have "k \<noteq> ''__proto__'' \<or> map_of ?app2 k \<noteq> None"
      using np ks app2 by simp
    ultimately show ?thesis
      unfolding w using map_of_replace_key [of k ?keys templatePackage v ?app2] v
      by (simp add: js_get_def)
  qed
qed

text \<open>
  Claim C5 says that every key of the template fragment outside the blacklist and
  outside \<^verbatim>\<open>dependencies\<close> and \<^verbatim>\<open>scripts\<close> replaces the entry of the app manifest.
  For the key \<^verbatim>\<open>__proto__\<close> the assignment of the source adds no property: the
  manifest written has no such key, while the key \<^verbatim>\<open>main\<close> of the same fragment is
  taken over and the blacklisted \<^verbatim>\<open>name\<close> is kept.
\<close>

theorem initializeTemplate_manifest_proto:
  "initializeTemplate_manifest
     [(''name'', JStr ''my-app''), (''version'', JStr ''1.0.0''), (''private'', JBool True)]
     [(''name'', JStr ''template''), (''main'', JStr ''index.js''),
      (''__proto__'', JObj [(''type'', JStr ''module'')])]
     isYarn
   = Inr [(''name'', JStr ''my-app''), (''version'', JStr ''1.0.0''), (''private'', JBool True),
          (''dependencies'', JObj []), (''scripts'', JObj []), (''main'', JStr ''index.js'')]"
  by (simp add: initializeTemplate_manifest_def js_set_def js_get_def or_object_def
        object_assign_empty_def templatePackageBlacklist_def templatePackageToMerge_def)

section \<open>checkAppName\<close>

text \<open>
  Claim C6. When the name is valid for new packages and is neither \<^verbatim>\<open>@babel/core\<close> nor
  \<^verbatim>\<open>@babel/preset-env\<close>, \<^verbatim>\<open>checkAppName\<close> returns and prints nothing, and
  \<^verbatim>\<open>createApp\<close> goes on: its next effect is the call of \<^verbatim>\<open>ensureDirSync\<close>.
  Otherwise \<^verbatim>\<open>checkAppName\<close> prints its report with \<^verbatim>\<open>console.error\<close> and ends the
  process with status 1, leaving the directory as it is: for a name that is not valid,
  a line that names the app, one line for every error and every warning of
  \<^verbatim>\<open>validate-npm-package-name\<close>, and a closing line; for the name of a dependency, one
  message that names the app and lists the two dependencies. \<^verbatim>\<open>createApp\<close> then ends
  there, with that report as its only effect. The answer of
  \<^verbatim>\<open>validate-npm-package-name\<close> is a parameter.
\<close>

theorem checkAppName_reports_and_exits:
  assumes "path_resolve (cwd e) [Some name] = Inr root"
  shows "(if validForNewPackages (validateProjectName e appName)
             \<and> appName \<noteq> ''@babel/core'' \<and> appName \<noteq> ''@babel/preset-env''
          then checkAppName e appName w = (Return (), w)
          else fst (checkAppName e appName w) = Exit 1
             \<and> files (snd (checkAppName e appName w)) = files w
             \<and> effects (snd (checkAppName e appName w)) =
                 effects w @ map ConsoleError
                   (if \<not> validForNewPackages (validateProjectName e appName)
                    then [''Cannot create a project named '' @ quoted appName
                            @ '' because of npm naming restrictions:'' @ [CHR 0x0A]]
                         @ map (\<lambda>error. ''  * '' @ error)
                             (or_nil (errors (validateProjectName e appName))
                                @ or_nil (warnings (validateProjectName e appName)))
                         @ [[CHR 0x0A] @ ''Please choose a different project name.'']
                    else [''Cannot create a project named '' @ quoted appName
                            @ '' because a dependency with the same name exists.'' @ [CHR 0x0A]
                            @ ''Due to the way npm works, the following names are not allowed:''
                            @ [CHR 0x0A, CHR 0x0A]
                            @ ''  @babel/core'' @ [CHR 0x0A] @ ''  @babel/preset-env''
                            @ [CHR 0x0A, CHR 0x0A] @ ''Please choose a different project name.'']))
       \<and> (if validForNewPackages (validateProjectName e (basename root))
             \<and> basename root \<noteq> ''@babel/core'' \<and> basename root \<noteq> ''@babel/preset-env''
          then prefix (effects w @ [EnsureDirSync (basename root)])
                 (effects (snd (createApp e name verbose template isYarn w)))
          else createApp e name verbose template isYarn w
                 = (Exit 1, snd (checkAppName e (basename root) w)))"
proof -
  have ok: "checkAppName e a w = (Return (), w)"
    if "validForNewPackages (validateProjectName e a)" "a \<noteq> ''@babel/core''"
      "a \<noteq> ''@babel/preset-env''" for a
    using that by (simp add: checkAppName_def)
  have ex: "fst (checkAppName e a w) = Exit 1"
    if "\<not> (validForNewPackages (validateProjectName e a) \<and> a \<noteq> ''@babel/core''
            \<and> a \<noteq> ''@babel/preset-env'')" for a
    using that by (auto simp: checkAppName_def Let_def)
  have fi: "files (snd (checkAppName e a w)) = files w" for a
    by (simp add: checkAppName_def Let_def console_error_def fold_console_error)
  have inv: "effects (snd (checkAppName e a w)) =
               effects w @ map ConsoleError
                 ([''Cannot create a project named '' @ quoted a
                     @ '' because of npm naming restrictions:'' @ [CHR 0x0A]]
                  @ map (\<lambda>error. ''  * '' @ error)
                      (or_nil (errors (validateProjectName e a))
                         @ or_nil (warnings (validateProjectName e a)))
                  @ [[CHR 0x0A] @ ''Please choose a different project name.''])"
    if "\<not> validForNewPackages (validateProjectName e a)" for a
    using that
    by (simp add: checkAppName_def Let_def console_error_def fold_console_error comp_def)
  have dep: "effects (snd (checkAppName e a w)) =
               effects w @ map ConsoleError
                 [''Cannot create a project named '' @ quoted a
                    @ '' because a dependency with the same name exists.'' @ [CHR 0x0A]
                    @ ''Due to the way npm works, the following names are not allowed:''
                    @ [CHR 0x0A, CHR 0x0A]
                    @ ''  @babel/core'' @ [CHR 0x0A] @ ''  @babel/preset-env''
                    @ [CHR 0x0A, CHR 0x0A] @ ''Please choose a different project name.'']"
    if "validForNewPackages (validateProjectName e a)"
      "a = ''@babel/core'' \<or> a = ''@babel/preset-env''" for a
    using that by (auto simp: checkAppName_def Let_def console_error_def)
  have 1: "if validForNewPackages (validateProjectName e appName)
             \<and> appName \<noteq> ''@babel/core'' \<and> appName \<noteq> ''@babel/preset-env''
          then checkAppName e appName w = (Return (), w)
          else fst (checkAppName e appName w) = Exit 1
             \<and> files (snd (checkAppName e appName w)) = files w
             \<and> effects (snd (checkAppName e appName w)) =
                 effects w @ map ConsoleError
                   (if \<not> validForNewPackages (validateProjectName e appName)
                    then [''Cannot create a project named '' @ quoted appName
                            @ '' because of npm naming restrictions:'' @ [CHR 0x0A]]
                         @ map (\<lambda>error. ''  * '' @ error)
                             (or_nil (errors (validateProjectName e appName))
                                @ or_nil (warnings (validateProjectName e appName)))
                         @ [[CHR 0x0A] @ ''Please choose a different project name.'']
                    else [''Cannot create a project named '' @ quoted appName
                            @ '' because a dependency with the same name exists.'' @ [CHR 0x0A]
                            @ ''Due to the way npm works, the following names are not allowed:''
                            @ [CHR 0x0A, CHR 0x0A]
                            @ ''  @babel/core'' @ [CHR 0x0A] @ ''  @babel/preset-env''
                            @ [CHR 0x0A, CHR 0x0A] @ ''Please choose a different project name.''])"
  proof (cases "validForNewPackages (validateProjectName e appName)")
    case False
    then show ?thesis
      using ex [of appName] fi [of appName] inv [of appName] by simp
  next
    case True
    show ?thesis
    proof (cases "appName = ''@babel/core'' \<or> appName = ''@babel/preset-env''")
      case True
      then show ?thesis
        using \<open>validForNewPackages (validateProjectName e appName)\<close>
          ex [of appName] fi [of appName] dep [of appName]
        by auto
    next
      case False
      then show ?thesis
        using True ok [of appName] by simp
    qed
  qed
  have 2: "if validForNewPackages (validateProjectName e (basename root))
             \<and> basename root \<noteq> ''@babel/core'' \<and> basename root \<noteq> ''@babel/preset-env''
          then prefix (effects w @ [EnsureDirSync (basename root)])
                 (effects (snd (createApp e name verbose template isYarn w)))
          else createApp e name verbose template isYarn w
                 = (Exit 1, snd (checkAppName e (basename root) w))"
  proof (cases "validForNewPackages (validateProjectName e (basename root))
             \<and> basename root \<noteq> ''@babel/core'' \<and> basename root \<noteq> ''@babel/preset-env''")
    case True
    then have "checkAppName e (basename root) w = (Return (), w)"
      using ok [of "basename root"] by simp
    then show ?thesis
      using True prefix_effects_createApp_accepted [OF assms] by simp
  next
    case False
    obtain r w0 where c: "checkAppName e (basename root) w = (r, w0)"
      by (cases "checkAppName e (basename root) w")
    then have "r = Exit 1"
      using ex [OF False] by simp
    then have "createApp e name verbose template isYarn w
                 = (Exit 1, snd (checkAppName e (basename root) w))"
      using assms c by (simp add: createApp_def Let_def)
    then show ?thesis
      unfolding if_not_P [OF False] .
  qed
  show ?thesis
    using 1 2 by (rule conjI)
qed

text \<open>
  In \<^verbatim>\<open>/home/u\<close>, with the answers that \<^verbatim>\<open>validate-npm-package-name\<close> gives:
  \<^verbatim>\<open>my-app\<close> is accepted and \<^verbatim>\<open>createApp\<close> goes on; \<^verbatim>\<open>My App\<close> is reported and
  ends \<^verbatim>\<open>createApp\<close>; \<^verbatim>\<open>@babel/core\<close> is reported by \<^verbatim>\<open>checkAppName\<close>.
\<close>

theorem checkAppName_reports_and_exits_witness:
  "checkAppName
      \<lparr>cwd = ''/home/u'',
        validateProjectName =
          (\<lambda>n. if n = ''My App''
                then \<lparr>validForNewPackages = False,
                      errors = Some [''name can only contain URL-friendly characters''],
                      warnings = Some [''name can no longer contain capital letters'']\<rparr>
                else \<lparr>validForNewPackages = True, errors = None, warnings = None\<rparr>),
        npmReportsCwd = True, dnsLookupOk = True, child = (\<lambda>c a d. (Some 0, d))\<rparr>
      ''my-app'' \<lparr>files = None, effects = []\<rparr>
     = (Return (), \<lparr>files = None, effects = []\<rparr>)
   \<and> prefix [EnsureDirSync ''my-app'']
       (effects (snd (createApp
          \<lparr>cwd = ''/home/u'',
        validateProjectName =
          (\<lambda>n. if n = ''My App''
                then \<lparr>validForNewPackages = False,
                      errors = Some [''name can only contain URL-friendly characters''],
                      warnings = Some [''name can no longer contain capital letters'']\<rparr>
                else \<lparr>validForNewPackages = True, errors = None, warnings = None\<rparr>),
        npmReportsCwd = True, dnsLookupOk = True, child = (\<lambda>c a d. (Some 0, d))\<rparr>
          ''my-app'' False None False \<lparr>files = None, effects = []\<rparr>)))
   \<and> createApp
        \<lparr>cwd = ''/home/u'',
        validateProjectName =
          (\<lambda>n. if n = ''My App''
                then \<lparr>validForNewPackages = False,
                      errors = Some [''name can only contain URL-friendly characters''],
                      warnings = Some [''name can no longer contain capital letters'']\<rparr>
                else \<lparr>validForNewPackages = True, errors = None, warnings = None\<rparr>),
        npmReportsCwd = True, dnsLookupOk = True, child = (\<lambda>c a d. (Some 0, d))\<rparr>
        ''My App'' False None False \<lparr>files = None, effects = []\<rparr>
     = (Exit 1,
        \<lparr>files = None,
          effects =
            [ConsoleError (''Cannot create a project named '' @ [CHR 0x22] @ ''My App'' @ [CHR 0x22]
                             @ '' because of npm naming restrictions:'' @ [CHR 0x0A]),
             ConsoleError ''  * name can only contain URL-friendly characters'',
             ConsoleError ''  * name can no longer contain capital letters'',
             ConsoleError ([CHR 0x0A] @ ''Please choose a different project name.'')]\<rparr>)
   \<and> fst (checkAppName
        \<lparr>cwd = ''/home/u'',
        validateProjectName =
          (\<lambda>n. if n = ''My App''
                then \<lparr>validForNewPackages = False,
                      errors = Some [''name can only contain URL-friendly characters''],
                      warnings = Some [''name can no longer contain capital letters'']\<rparr>
                else \<lparr>validForNewPackages = True, errors = None, warnings = None\<rparr>),
        npmReportsCwd = True, dnsLookupOk = True, child = (\<lambda>c a d. (Some 0, d))\<rparr>
        ''@babel/core'' \<lparr>files = None, effects = []\<rparr>) = Exit 1
   \<and> effects (snd (checkAppName
        \<lparr>cwd = ''/home/u'',
        validateProjectName =
          (\<lambda>n. if n = ''My App''
                then \<lparr>validForNewPackages = False,
                      errors = Some [''name can only contain URL-friendly characters''],
                      warnings = Some [''name can no longer contain capital letters'']\<rparr>
                else \<lparr>validForNewPackages = True, errors = None, warnings = None\<rparr>),
        npmReportsCwd = True, dnsLookupOk = True, child = (\<lambda>c a d. (Some 0, d))\<rparr>
        ''@babel/core'' \<lparr>files = None, effects = []\<rparr>))
     = [ConsoleError (''Cannot create a project named '' @ [CHR 0x22] @ ''@babel/core''
                        @ [CHR 0x22]
                        @ '' because a dependency with the same name exists.'' @ [CHR 0x0A]
                        @ ''Due to the way npm works, the following names are not allowed:''
                        @ [CHR 0x0A, CHR 0x0A]
                        @ ''  @babel/core'' @ [CHR 0x0A] @ ''  @babel/preset-env''
                        @ [CHR 0x0A, CHR 0x0A]
                        @ ''Please choose a different project name.'')]"
proof -
  let ?e = "\<lparr>cwd = ''/home/u'',
        validateProjectName =
          (\<lambda>n. if n = ''My App''
                then \<lparr>validForNewPackages = False,
                      errors = Some [''name can only contain URL-friendly characters''],
                      warnings = Some [''name can no longer contain capital letters'']\<rparr>
                else \<lparr>validForNewPackages = True, errors = None, warnings = None\<rparr>),
        npmReportsCwd = True, dnsLookupOk = True, child = (\<lambda>c a d. (Some 0, d))\<rparr>"
  let ?w = "\<lparr>files = None, effects = []\<rparr>"
  have p: "path_resolve (cwd ?e) [Some ''my-app''] = Inr ''/home/u/my-app''"
    "path_resolve (cwd ?e) [Some ''My App''] = Inr ''/home/u/My App''"
    by (simp_all add: path_resolve_def normalizeString_def)
  have b: "basename ''/home/u/my-app'' = ''my-app''" "basename ''/home/u/My App'' = ''My App''"
    by (simp_all add: basename_def)
  have c: "snd (checkAppName ?e ''My App'' ?w) =
        \<lparr>files = None,
          effects =
            [ConsoleError (''Cannot create a project named '' @ [CHR 0x22] @ ''My App'' @ [CHR 0x22]
                             @ '' because of npm naming restrictions:'' @ [CHR 0x0A]),
             ConsoleError ''  * name can only contain URL-friendly characters'',
             ConsoleError ''  * name can no longer contain capital letters'',
             ConsoleError ([CHR 0x0A] @ ''Please choose a different project name.'')]\<rparr>"
    by (simp add: checkAppName_def console_error_def quoted_def or_nil_def)
  show ?thesis
    using checkAppName_reports_and_exits
            [OF p(1), where appName = "''my-app''" and w = ?w and verbose = False
               and template = None and isYarn = False]
          checkAppName_reports_and_exits
            [OF p(2), where appName = "''@babel/core''" and w = ?w and verbose = False
               and template = None and isYarn = False]
    by (simp add: b c quoted_def)
qed

section \<open>The arguments of the package manager\<close>

text \<open>
  Claim C7. With npm the command line is \<^verbatim>\<open>install --no-audit --save-exact --loglevel
  error\<close>, then the dependencies in order, then \<^verbatim>\<open>--verbose\<close> exactly when verbose
  is set. With Yarn it starts with \<^verbatim>\<open>add --exact\<close> and holds every dependency.
  \<^verbatim>\<open>install\<close> spawns that command line, and the first thing \<^verbatim>\<open>run\<close> does is to
  spawn it for the dependencies \<^verbatim>\<open>@babel/core\<close>, \<^verbatim>\<open>@babel/preset-env\<close> and the
  resolved template package.
\<close>

theorem install_fixed_arguments:
  assumes "getTemplateInstallPackage (cwd e) template originalDirectory = Inr t"
    and "checkIfOnline e isYarn = Return isOnline"
  shows "install_command root False deps verbose online =
           (''npm'', [''install'', ''--no-audit'', ''--save-exact'', ''--loglevel'', ''error'']
                     @ deps @ (if verbose then [''--verbose''] else []))
       \<and> fst (install_command root True deps verbose online) = ''yarnpkg''
       \<and> take 2 (snd (install_command root True deps verbose online)) = [''add'', ''--exact'']
       \<and> set deps \<subseteq> set (snd (install_command root True deps verbose online))
       \<and> effects (snd (install e root yarn deps verbose online w)) =
           effects w @ [Spawn (fst (install_command root yarn deps verbose online))
                              (snd (install_command root yarn deps verbose online))]
       \<and> prefix
           (effects w @
              [Spawn (fst (install_command root isYarn
                             [''@babel/core'', ''@babel/preset-env'', t] verbose isOnline))
                     (snd (install_command root isYarn
                             [''@babel/core'', ''@babel/preset-env'', t] verbose isOnline))])
           (effects (snd (run e root appName verbose originalDirectory template isYarn w)))"
proof -
  let ?deps = "[''@babel/core'', ''@babel/preset-env'', t]"
  have i: "\<And>y ds on. effects (snd (install e root y ds verbose on w)) =
           effects w @ [Spawn (fst (install_command root y ds verbose on))
                              (snd (install_command root y ds verbose on))]"
    by (auto simp: install_def sync_def Let_def split: prod.splits)
  obtain r w' where iw: "install e root isYarn ?deps verbose isOnline w = (r, w')"
    by (cases "install e root isYarn ?deps verbose isOnline w")
  have ew: "effects w' = effects w @ [Spawn (fst (install_command root isYarn ?deps verbose isOnline))
                              (snd (install_command root isYarn ?deps verbose isOnline))]"
    using i [of isYarn ?deps isOnline] iw by simp
  have "prefix (effects w') (effects (snd (run e root appName verbose originalDirectory template isYarn w)))"
  proof (cases r)
    case (Inl command)
    then show ?thesis
      using assms iw prefix_effects_run_catch [of w'] by (simp add: run_unfold)
  next
    case (Inr u)
    then show ?thesis
      using assms iw by (simp add: run_unfold)
  qed
  then show ?thesis
    using i [of yarn deps online] unfolding ew
    by (auto simp: install_command_def)
qed

theorem install_fixed_arguments_witness:
  "getTemplateInstallPackage
     (cwd \<lparr>cwd = ''/home/u/app'',
         validateProjectName =
           (\<lambda>n. \<lparr>validForNewPackages = True, errors = None, warnings = None\<rparr>),
         npmReportsCwd = True,
         dnsLookupOk = True, child = (\<lambda>c a d. (Some 0, d))\<rparr>) (Some ''ts'') ''/home/u''
     = Inr ''@hackermans/cba-template-ts''
   \<and> effects (snd (run \<lparr>cwd = ''/home/u/app'',
       validateProjectName =
         (\<lambda>n. \<lparr>validForNewPackages = True, errors = None, warnings = None\<rparr>),
       npmReportsCwd = True, dnsLookupOk = True,
       child = (\<lambda>c a d. (Some 0, d))\<rparr>
                      ''/home/u/app'' ''app'' True ''/home/u'' (Some ''ts'') False
                      \<lparr>files = Some [], effects = []\<rparr>))
     = [Spawn ''npm'' [''install'', ''--no-audit'', ''--save-exact'', ''--loglevel'', ''error'',
                       ''@babel/core'', ''@babel/preset-env'', ''@hackermans/cba-template-ts'',
                       ''--verbose'']]"
proof -
  let ?e = "\<lparr>cwd = ''/home/u/app'',
      validateProjectName =
        (\<lambda>n. \<lparr>validForNewPackages = True, errors = None, warnings = None\<rparr>),
      npmReportsCwd = True,
      dnsLookupOk = True, child = (\<lambda>c a d. (Some 0, d))\<rparr>"
  have g: "getTemplateInstallPackage (cwd ?e) (Some ''ts'') ''/home/u''
             = Inr ''@hackermans/cba-template-ts''"
    by (simp add: getTemplateInstallPackage_def rx_defs or_empty_def startsWith_def)
  have o: "checkIfOnline ?e False = Return True"
    by (simp add: checkIfOnline_def)
  have r: "effects (snd (run ?e ''/home/u/app'' ''app'' True ''/home/u'' (Some ''ts'') False
                      \<lparr>files = Some [], effects = []\<rparr>))
     = [Spawn ''npm'' [''install'', ''--no-audit'', ''--save-exact'', ''--loglevel'', ''error'',
                       ''@babel/core'', ''@babel/preset-env'', ''@hackermans/cba-template-ts'',
                       ''--verbose'']]"
    using g by (simp add: run_unfold checkIfOnline_def install_def install_command_def sync_def)
  show ?thesis
    using install_fixed_arguments [OF g o, of "''/home/u/app''" "[]" True True False
        "\<lparr>files = Some [], effects = []\<rparr>" "''app''"] g r
    by simp
qed

section \<open>What getTemplateInstallPackage reads\<close>

text \<open>
  The pattern \<^verbatim>\<open>/^file:(.*)?$/\<close> on a template that starts with \<^verbatim>\<open>file:\<close>: the group
  holds the rest of the template when it is not empty and has no line terminator; it is
  \<^verbatim>\<open>undefined\<close> when the rest is empty; the match is \<^verbatim>\<open>null\<close> when the rest has a
  line terminator.
\<close>

lemma set_ms_file_tail:
  "set (ms (Seq (Opt (Group 1 (Many0 Dot))) Eol) (q, p, c)) =
     (if p = [] then {(q, [], c)}
      else if list_all (accepts Dot) p then {(q + length p, [], c(1 \<mapsto> p))}
      else {})"
proof -
  let ?L = "length (takeWhile (accepts Dot) p)"
  have all: "list_all (accepts Dot) p \<longleftrightarrow> ?L = length p"
    by (metis length_takeWhile_le list_all_iff takeWhile_eq_all_conv takeWhile_eq_take length_take min.absorb2 order_refl take_all)
  have le: "?L \<le> length p" by (rule length_takeWhile_le)
  have o: "set (ms (Opt (Group 1 (Many0 Dot))) (q, p, c)) =
             insert (q, p, c) ((\<lambda>k. (q + k, drop k p, c(1 \<mapsto> take k p))) ` {1..?L})"
    by (auto simp: set_many image_iff Suc_le_eq)
  show ?thesis
    unfolding set_ms_Seq o using le
    by (auto simp: all Suc_le_eq split: if_splits)
qed

lemma rx_match_file_path:
  "rx_match rx_file_path (''file:'' @ p) =
     (if p = [] then Some [0 \<mapsto> ''file:'']
      else if list_all (accepts Dot) p then Some [1 \<mapsto> p, 0 \<mapsto> ''file:'' @ p]
      else None)"
proof -
  let ?T = "Seq (Opt (Group 1 (Many0 Dot))) Eol"
  have s: "ms (Seq (Str ''file:'') ?T) (0, ''file:'' @ p, Map.empty) = ms ?T (5, p, Map.empty)"
    by (simp del: ms.simps(4,6) add: ms.simps(4) [of "Str ''file:''"] eval_nat_numeral)
  have "first_of (ms ?T (5, p, Map.empty)) =
          (if p = [] then Some (5, [], Map.empty)
           else if list_all (accepts Dot) p then Some (5 + length p, [], [1 \<mapsto> p])
           else None)"
    by (rule first_of_set_option) (unfold set_ms_file_tail, simp)
  then show ?thesis
    unfolding rx_file_path_def rx_match_Bol s by simp
qed

lemma getTemplateInstallPackage_file:
  "getTemplateInstallPackage wd (Some (''file:'' @ p)) originalDirectory =
     (if p \<noteq> [] \<and> list_all (accepts Dot) p
      then (case path_resolve wd [Some originalDirectory, Some p] of
              Inl err \<Rightarrow> Inl err
            | Inr q \<Rightarrow> Inr (''file:'' @ q))
      else Inl TypeError)"
proof -
  have t: "rx_test rx_file (''file:'' @ p)"
    by (simp add: rx_test_file)
  have "getTemplateInstallPackage wd (Some (''file:'' @ p)) originalDirectory =
          (case (if p = [] then Some [0::nat \<mapsto> ''file:'']
                 else if list_all (accepts Dot) p then Some [1 \<mapsto> p, 0 \<mapsto> ''file:'' @ p]
                 else None) of
             None \<Rightarrow> Inl TypeError
           | Some m \<Rightarrow>
               (case path_resolve wd [Some originalDirectory, m 1] of
                  Inl err \<Rightarrow> Inl err
                | Inr q \<Rightarrow> Inr (''file:'' @ q)))"
    using t
    by (simp only: getTemplateInstallPackage_def Let_def option.case rx_match_file_path
          append_is_Nil_conv list.simps if_False if_True simp_thms)
  then show ?thesis
    by (simp add: path_resolve_def)
qed

text \<open>
  \<^verbatim>\<open>path.resolve(originalDirectory, p)\<close> does not read the working directory when one
  of the two is absolute. When both are relative the result starts with the working
  directory, if this one is deep enough for the \<^verbatim>\<open>..\<close> of the two paths: the working
  directories \<^verbatim>\<open>/a/a/.../a\<close> and \<^verbatim>\<open>/b/b/.../b\<close> give two results.
\<close>

lemma path_resolve_absolute_arg:
  assumes "prefix ''/'' p \<or> prefix ''/'' originalDirectory"
  shows "path_resolve wd1 [Some originalDirectory, Some p] =
         path_resolve wd2 [Some originalDirectory, Some p]"
proof -
  have "(p \<noteq> [] \<and> hd p = CHR ''/'') \<or> (originalDirectory \<noteq> [] \<and> hd originalDirectory = CHR ''/'')"
    using assms by (simp add: prefix_single)
  then have "resolve_loop [Some p, Some originalDirectory, Some wd1] [] =
        resolve_loop [Some p, Some originalDirectory, Some wd2] []"
    by auto
  then show ?thesis
    by (simp add: path_resolve_def)
qed

lemma split_slash_append:
  "split_slash seg (xs @ CHR ''/'' # ys) = split_slash seg xs @ split_slash [] ys"
  by (induction xs arbitrary: seg) simp_all

lemma length_split_slash: "length (split_slash seg s) \<le> Suc (length s)"
  by (induction s arbitrary: seg) (simp_all add: le_SucI)

lemma split_slash_replicate:
  assumes "CHR ''/'' \<notin> set a"
  shows "split_slash [] (concat (replicate n (CHR ''/'' # a))) = [] # replicate n a"
proof (induction n)
  case 0
  then show ?case by simp
next
  case (Suc n)
  have plain: "split_slash seg a = [rev seg @ a]" for seg
    using assms by (induction a arbitrary: seg) auto
  have "concat (replicate k (CHR ''/'' # a)) @ CHR ''/'' # a
          = (CHR ''/'' # a) @ concat (replicate k (CHR ''/'' # a))" for k
    by (induction k) simp_all
  then have c: "concat (replicate (Suc n) (CHR ''/'' # a)) = concat (replicate n (CHR ''/'' # a)) @ CHR ''/'' # a"
    by simp
  have r: "replicate n a @ [a] = a # replicate n a"
    by (simp add: replicate_append_same)
  show ?case
    unfolding c split_slash_append Suc.IH plain by (simp add: r)
qed

lemma normalize_segments_append:
  "normalize_segments b res (xs @ ys) = normalize_segments b (normalize_segments b res xs) ys"
  by (induction xs arbitrary: res b) simp_all

lemma normalize_segments_replicate:
  assumes "a \<noteq> []" "a \<noteq> ''.''" "a \<noteq> ''..''"
  shows "normalize_segments b res (replicate n a) = res @ replicate n a"
  using assms by (induction n arbitrary: res) (simp_all add: replicate_app_Cons_same)

lemma normalize_segments_hd:
  assumes "length segs < length res"
  shows "normalize_segments b res segs \<noteq> [] \<and> hd (normalize_segments b res segs) = hd res"
  using assms
proof (induction segs arbitrary: res)
  case Nil
  then show ?case by auto
next
  case (Cons seg segs)
  obtain r1 r2 rs where res: "res = r1 # r2 # rs"
  proof (cases res)
    case Nil
    then show ?thesis using Cons.prems by simp
  next
    case c1: (Cons r1 res')
    show ?thesis
    proof (cases res')
      case Nil
      then show ?thesis using Cons.prems c1 by simp
    next
      case (Cons r2 rs)
      then show ?thesis using c1 that by simp
    qed
  qed
  have IH: "normalize_segments b res' segs \<noteq> [] \<and> hd (normalize_segments b res' segs) = r1"
    if "length segs < length res'" "hd res' = r1" for res'
    using Cons.IH [OF that(1)] that(2) by simp
  have 1: "length segs < length res" "hd res = r1"
    using Cons.prems by (simp_all add: res)
  have 2: "length segs < length (butlast res)" "hd (butlast res) = r1"
  proof -
    show "length segs < length (butlast res)"
      using Cons.prems unfolding length_butlast by simp
    show "hd (butlast res) = r1"
      by (simp add: res)
  qed
  have 3: "length segs < length (res @ [x])" "hd (res @ [x]) = r1" for x
    using Cons.prems by (simp_all add: res)
  have "normalize_segments b res (seg # segs) \<in>
          {normalize_segments b res segs, normalize_segments b (butlast res) segs,
           normalize_segments b (res @ [''..'']) segs, normalize_segments b (res @ [seg]) segs}"
    by simp
  then show ?case
    using IH [OF 1] IH [OF 2] IH [OF 3 [of "''..''"]] IH [OF 3 [of seg]] 1(2)
    by (elim insertE emptyE) simp_all
qed

lemma hd_join_slash: "xs \<noteq> [] \<Longrightarrow> hd xs \<noteq> [] \<Longrightarrow> hd (join_slash xs) = hd (hd xs)"
  by (cases xs; cases "tl xs"; simp)

lemma path_resolve_deep:
  assumes "\<not> prefix ''/'' p" and "p \<noteq> []" and "\<not> prefix ''/'' originalDirectory"
    and "c \<noteq> CHR ''/''" and "c \<noteq> CHR ''.''"
    and "length originalDirectory + length p + 3 < n"
  shows "\<exists>q. path_resolve (concat (replicate n [CHR ''/'', c])) [Some originalDirectory, Some p]
               = Inr (CHR ''/'' # c # q)"
proof -
  let ?wd = "concat (replicate n [CHR ''/'', c])"
  let ?rest = "(if originalDirectory = [] then [] else originalDirectory @ ''/'') @ p @ ''/''"
  obtain m where n: "n = Suc m" using assms(6) by (cases n) auto
  have wd: "?wd \<noteq> [] \<and> hd ?wd = CHR ''/''"
    by (simp add: n)
  have p: "hd p \<noteq> CHR ''/''" using assms(1,2) by (simp add: prefix_single)
  have od: "originalDirectory \<noteq> [] \<Longrightarrow> hd originalDirectory \<noteq> CHR ''/''"
    using assms(3) by (simp add: prefix_single)
  have loop: "resolve_loop [Some p, Some originalDirectory, Some ?wd] [] = Inr (True, ?wd @ CHR ''/'' # ?rest)"
    using wd p od assms(2) by (simp del: replicate.simps concat.simps)
  have sp: "split_slash [] (?wd @ CHR ''/'' # ?rest) = ([] # replicate n [c]) @ split_slash [] ?rest"
    unfolding split_slash_append using assms(4) split_slash_replicate [of "[c]" n] by simp
  have len: "length (split_slash [] ?rest) < length (replicate n [c])"
    using length_split_slash [of "[]" ?rest] assms(6) by (simp split: if_splits)
  let ?segs = "normalize_segments False (replicate n [c]) (split_slash [] ?rest)"
  have "normalize_segments False [] ([] # replicate n [c]) = replicate n [c]"
    using assms(5) normalize_segments_replicate [of "[c]" False "[]" n] by simp
  then have norm: "normalize_segments False [] (split_slash [] (?wd @ CHR ''/'' # ?rest)) = ?segs"
    unfolding sp normalize_segments_append by (simp only:)
  have "hd (replicate n [c]) = [c]"
    by (simp add: n)
  then have hd: "?segs \<noteq> [] \<and> hd ?segs = [c]"
    using normalize_segments_hd [OF len, of False] by simp
  then have "hd (join_slash ?segs) = c"
    using hd_join_slash [of ?segs] by simp
  moreover have "join_slash ?segs \<noteq> []"
    using hd by (cases ?segs rule: join_slash.cases) auto
  ultimately obtain q where q: "join_slash ?segs = c # q"
    by (cases "join_slash ?segs") auto
  have "path_resolve ?wd [Some originalDirectory, Some p] = Inr (CHR ''/'' # c # q)"
    unfolding path_resolve_def using loop
    by (simp add: normalizeString_def norm q del: replicate.simps resolve_loop.simps concat.simps)
  then show ?thesis ..
qed

lemma getTemplateInstallPackage_file_depends:
  assumes "\<not> prefix ''/'' p" and "p \<noteq> []" and "CHR 0x0A \<notin> set p" and "CHR 0x0D \<notin> set p"
    and "\<not> prefix ''/'' originalDirectory"
  shows "\<exists>wd1 wd2. prefix ''/'' wd1 \<and> prefix ''/'' wd2
           \<and> getTemplateInstallPackage wd1 (Some (''file:'' @ p)) originalDirectory
             \<noteq> getTemplateInstallPackage wd2 (Some (''file:'' @ p)) originalDirectory"
proof -
  let ?n = "Suc (length originalDirectory + length p + 3)"
  let ?a = "concat (replicate ?n ''/a'')" and ?b = "concat (replicate ?n ''/b'')"
  have l: "length originalDirectory + length p + 3 < ?n" by simp
  obtain qa where qa: "path_resolve ?a [Some originalDirectory, Some p] = Inr (CHR ''/'' # CHR ''a'' # qa)"
    using path_resolve_deep [OF assms(1,2,5) _ _ l, of "CHR ''a''"] by auto
  obtain qb where qb: "path_resolve ?b [Some originalDirectory, Some p] = Inr (CHR ''/'' # CHR ''b'' # qb)"
    using path_resolve_deep [OF assms(1,2,5) _ _ l, of "CHR ''b''"] by auto
  have d: "list_all (accepts Dot) p"
    using assms(3,4) by (simp add: list_all_Dot)
  have "getTemplateInstallPackage ?a (Some (''file:'' @ p)) originalDirectory
          \<noteq> getTemplateInstallPackage ?b (Some (''file:'' @ p)) originalDirectory"
    unfolding getTemplateInstallPackage_file using assms(2) d qa qb by simp
  moreover have "prefix ''/'' (concat (replicate (Suc k) (CHR ''/'' # s)))" for k s
    by simp
  then have "prefix ''/'' ?a \<and> prefix ''/'' ?b"
    by blast
  ultimately show ?thesis by blast
qed

lemma getTemplateInstallPackage_independent:
  assumes "\<not> (\<exists>p. template = Some (''file:'' @ p) \<and> p \<noteq> [] \<and> \<not> prefix ''/'' p
                 \<and> CHR 0x0A \<notin> set p \<and> CHR 0x0D \<notin> set p
                 \<and> \<not> prefix ''/'' originalDirectory)"
  shows "getTemplateInstallPackage wd1 template originalDirectory =
         getTemplateInstallPackage wd2 template originalDirectory"
proof (cases template)
  case None
  then show ?thesis by (simp add: getTemplateInstallPackage_def)
next
  case (Some t)
  show ?thesis
  proof (cases "prefix ''file:'' t")
    case False
    then show ?thesis
      using Some by (simp add: getTemplateInstallPackage_def Let_def rx_test_file)
  next
    case True
    then obtain p where t: "t = ''file:'' @ p"
      by (auto simp: prefix_def)
    show ?thesis
    proof (cases "p \<noteq> [] \<and> list_all (accepts Dot) p")
      case False
      then show ?thesis
        unfolding Some t getTemplateInstallPackage_file by auto
    next
      case True
      then have "prefix ''/'' p \<or> prefix ''/'' originalDirectory"
        using assms unfolding Some t list_all_Dot by blast
      then show ?thesis
        unfolding Some t getTemplateInstallPackage_file
        using path_resolve_absolute_arg [of p originalDirectory wd1 wd2] by simp
    qed
  qed
qed

text \<open>
  Claim C8 says that the result is determined by the pair of arguments. For a
  \<^verbatim>\<open>file:\<close> template and a relative \<^verbatim>\<open>originalDirectory\<close> the source resolves the path
  against the working directory of the process, which \<^verbatim>\<open>createApp\<close> changes with
  \<^verbatim>\<open>process.chdir\<close>: the same arguments give two results in two working directories.
\<close>

theorem getTemplateInstallPackage_cwd_counterexample:
  "getTemplateInstallPackage ''/home/a'' (Some ''file:tpl'') ''work'' = Inr ''file:/home/a/work/tpl''
   \<and> getTemplateInstallPackage ''/home/b'' (Some ''file:tpl'') ''work'' = Inr ''file:/home/b/work/tpl''"
  by (simp add: getTemplateInstallPackage_def rx_defs path_resolve_def normalizeString_def)

text \<open>
  Claim C8, amended. The result depends on the working directory of the process exactly
  when the template is \<^verbatim>\<open>file:\<close> followed by a relative path (not empty, without line
  terminator) and \<^verbatim>\<open>originalDirectory\<close> is relative too: there are then two absolute
  working directories in which the same two arguments give two results. For every other
  pair of arguments (every template that is not such a \<^verbatim>\<open>file:\<close> reference, and every
  template when \<^verbatim>\<open>originalDirectory\<close> is absolute, as it is in \<^verbatim>\<open>createApp\<close>) the result,
  a string or an exception, is the same in every working directory. A call leaves the
  world as it found it: the directory and the list of effects are unchanged.
\<close>

theorem getTemplateInstallPackage_deterministic:
  "(if \<exists>p. template = Some (''file:'' @ p) \<and> p \<noteq> [] \<and> \<not> prefix ''/'' p
            \<and> CHR 0x0A \<notin> set p \<and> CHR 0x0D \<notin> set p
            \<and> \<not> prefix ''/'' originalDirectory
    then \<exists>wd1 wd2. prefix ''/'' wd1 \<and> prefix ''/'' wd2
           \<and> getTemplateInstallPackage wd1 template originalDirectory
             \<noteq> getTemplateInstallPackage wd2 template originalDirectory
    else \<forall>wd1 wd2. getTemplateInstallPackage wd1 template originalDirectory
                     = getTemplateInstallPackage wd2 template originalDirectory)
   \<and> fst (getTemplateInstallPackage_call e template originalDirectory w)
       = getTemplateInstallPackage (cwd e) template originalDirectory
   \<and> snd (getTemplateInstallPackage_call e template originalDirectory w) = w"
proof -
  let ?C = "\<exists>p. template = Some (''file:'' @ p) \<and> p \<noteq> [] \<and> \<not> prefix ''/'' p
            \<and> CHR 0x0A \<notin> set p \<and> CHR 0x0D \<notin> set p
            \<and> \<not> prefix ''/'' originalDirectory"
  have 1: "\<exists>wd1 wd2. prefix ''/'' wd1 \<and> prefix ''/'' wd2
           \<and> getTemplateInstallPackage wd1 template originalDirectory
             \<noteq> getTemplateInstallPackage wd2 template originalDirectory" if ?C
  proof -
    from that obtain p where "template = Some (''file:'' @ p)" "p \<noteq> []" "\<not> prefix ''/'' p"
      "CHR 0x0A \<notin> set p" "CHR 0x0D \<notin> set p" "\<not> prefix ''/'' originalDirectory"
      by blast
    then show ?thesis
      using getTemplateInstallPackage_file_depends [of p originalDirectory] by simp
  qed
  have 2: "\<forall>wd1 wd2. getTemplateInstallPackage wd1 template originalDirectory
                     = getTemplateInstallPackage wd2 template originalDirectory" if "\<not> ?C"
    using getTemplateInstallPackage_independent [OF that] by blast
  show ?thesis
    using 1 2 by (simp add: getTemplateInstallPackage_call_def)
qed

text \<open>
  With the absolute \<^verbatim>\<open>originalDirectory\<close> that \<^verbatim>\<open>createApp\<close> passes, and with an absolute
  path after \<^verbatim>\<open>file:\<close>, two working directories give one result; with \<^verbatim>\<open>file:tpl\<close>
  and the relative \<^verbatim>\<open>work\<close> they do not.
\<close>

theorem getTemplateInstallPackage_deterministic_witness:
  "getTemplateInstallPackage ''/home/a'' (Some ''file:../tpl'') ''/home/u''
     = getTemplateInstallPackage ''/home/b'' (Some ''file:../tpl'') ''/home/u''
   \<and> getTemplateInstallPackage ''/home/a'' (Some ''file:../tpl'') ''/home/u''
     = Inr ''file:/home/tpl''
   \<and> getTemplateInstallPackage ''/home/a'' (Some ''file:/abs/tpl'') ''work''
     = getTemplateInstallPackage ''/home/b'' (Some ''file:/abs/tpl'') ''work''
   \<and> (\<exists>wd1 wd2. prefix ''/'' wd1 \<and> prefix ''/'' wd2
         \<and> getTemplateInstallPackage wd1 (Some ''file:tpl'') ''work''
           \<noteq> getTemplateInstallPackage wd2 (Some ''file:tpl'') ''work'')
   \<and> snd (getTemplateInstallPackage_call
             \<lparr>cwd = ''/home/u/app'',
                 validateProjectName =
                   (\<lambda>n. \<lparr>validForNewPackages = True, errors = None, warnings = None\<rparr>),
                 npmReportsCwd = True,
                 dnsLookupOk = True, child = (\<lambda>c a d. (Some 0, d))\<rparr>
             (Some ''file:../tpl'') ''/home/u'' \<lparr>files = Some [], effects = []\<rparr>)
     = \<lparr>files = Some [], effects = []\<rparr>"
proof -
  have r: "getTemplateInstallPackage ''/home/a'' (Some ''file:../tpl'') ''/home/u''
     = Inr ''file:/home/tpl''"
    by (simp add: getTemplateInstallPackage_def rx_defs path_resolve_def normalizeString_def)
  have c1: "\<not> (\<exists>p. Some ''file:../tpl'' = Some (''file:'' @ p) \<and> p \<noteq> [] \<and> \<not> prefix ''/'' p
            \<and> CHR 0x0A \<notin> set p \<and> CHR 0x0D \<notin> set p \<and> \<not> prefix ''/'' ''/home/u'')"
    by simp
  have c2: "\<not> (\<exists>p. Some ''file:/abs/tpl'' = Some (''file:'' @ p) \<and> p \<noteq> [] \<and> \<not> prefix ''/'' p
            \<and> CHR 0x0A \<notin> set p \<and> CHR 0x0D \<notin> set p \<and> \<not> prefix ''/'' ''work'')"
    by auto
  have c3: "\<exists>p. Some ''file:tpl'' = Some (''file:'' @ p) \<and> p \<noteq> [] \<and> \<not> prefix ''/'' p
            \<and> CHR 0x0A \<notin> set p \<and> CHR 0x0D \<notin> set p \<and> \<not> prefix ''/'' ''work''"
    by (rule exI [of _ "''tpl''"]) simp
  show ?thesis
    using getTemplateInstallPackage_deterministic
            [of "Some ''file:../tpl''" "''/home/u''"
                "\<lparr>cwd = ''/home/u/app'',
                    validateProjectName =
                      (\<lambda>n. \<lparr>validForNewPackages = True, errors = None, warnings = None\<rparr>),
                    npmReportsCwd = True,
                    dnsLookupOk = True, child = (\<lambda>c a d. (Some 0, d))\<rparr>"
                "\<lparr>files = Some [], effects = []\<rparr>"]
          getTemplateInstallPackage_deterministic [of "Some ''file:/abs/tpl''" "''work''"]
          getTemplateInstallPackage_deterministic [of "Some ''file:tpl''" "''work''"]
    unfolding if_not_P [OF c1] if_not_P [OF c2] if_P [OF c3]
    using r by metis
qed

section \<open>When the pattern of package names matches\<close>

text \<open>
  Claim C9 says that the pattern matches every template that is not a \<^verbatim>\<open>file:\<close>
  reference, a URL or an archive, so that the function never throws on that branch. The
  pattern does not match \<^verbatim>\<open>@\<close> (nor a name followed by a bare \<^verbatim>\<open>@\<close>): the version
  group needs a character after the \<^verbatim>\<open>@\<close>. The source indexes the \<^verbatim>\<open>null\<close> that
  \<^verbatim>\<open>match\<close> returns.
\<close>

theorem getTemplateInstallPackage_total_counterexample:
  "\<not> rx_test rx_file ''@'' \<and> \<not> includes_str ''://'' ''@'' \<and> \<not> rx_test rx_archive ''@''
   \<and> rx_match rx_package ''@'' = None
   \<and> getTemplateInstallPackage ''/home/u'' (Some ''@'') ''/home/u'' = Inl TypeError
   \<and> getTemplateInstallPackage ''/home/u'' (Some ''ts@'') ''/home/u'' = Inl TypeError"
  by (simp add: getTemplateInstallPackage_def rx_defs)

text \<open>
  Claim C9, amended. For a template that is not empty, not a \<^verbatim>\<open>file:\<close> reference, has
  no \<^verbatim>\<open>://\<close> and does not match the archive pattern: when it has the form of an
  optional scope \<^verbatim>\<open>@SCOPE/\<close> (\<open>SCOPE\<close> not empty, without \<^verbatim>\<open>/\<close>), a name without
  \<^verbatim>\<open>@\<close> (possibly empty) and an optional version \<^verbatim>\<open>@VERSION\<close> (\<open>VERSION\<close> not empty,
  without line terminator), the pattern matches and the function returns a string;
  otherwise the match is \<^verbatim>\<open>null\<close> and the function throws a \<^verbatim>\<open>TypeError\<close>.
\<close>

theorem getTemplateInstallPackage_returns_iff_form:
  assumes "t \<noteq> []" and "\<not> rx_test rx_file t" and "\<not> includes_str ''://'' t"
    and "\<not> rx_test rx_archive t"
  shows "(if \<exists>sc n ve. t = sc @ n @ ve
              \<and> (sc = [] \<or> (\<exists>SCOPE. sc = ''@'' @ SCOPE @ ''/'' \<and> SCOPE \<noteq> [] \<and> CHR ''/'' \<notin> set SCOPE))
              \<and> CHR ''@'' \<notin> set n
              \<and> (ve = [] \<or> (\<exists>VERSION. ve = ''@'' @ VERSION \<and> VERSION \<noteq> []
                               \<and> CHR 0x0A \<notin> set VERSION \<and> CHR 0x0D \<notin> set VERSION))
          then rx_match rx_package t \<noteq> None
             \<and> (\<exists>r. getTemplateInstallPackage wd (Some t) originalDirectory = Inr r)
          else rx_match rx_package t = None
             \<and> getTemplateInstallPackage wd (Some t) originalDirectory = Inl TypeError)"
proof -
  have m: "rx_match rx_package t \<noteq> None \<longleftrightarrow> package_parse t \<noteq> None"
    by (simp add: rx_match_package)
  have r: "rx_match rx_package t \<noteq> None \<Longrightarrow>
             \<exists>r. getTemplateInstallPackage wd (Some t) originalDirectory = Inr r"
    using assms by (auto simp: getTemplateInstallPackage_def Let_def)
  have e: "rx_match rx_package t = None \<Longrightarrow>
             getTemplateInstallPackage wd (Some t) originalDirectory = Inl TypeError"
    using assms by (simp add: getTemplateInstallPackage_def)
  show ?thesis
    using m r e unfolding package_parse_Some_iff by (auto split: if_splits)
qed

theorem getTemplateInstallPackage_returns_iff_form_witness:
  "''@my/ts'' \<noteq> [] \<and> \<not> rx_test rx_file ''@my/ts'' \<and> \<not> includes_str ''://'' ''@my/ts''
   \<and> \<not> rx_test rx_archive ''@my/ts''
   \<and> rx_match rx_package ''@my/ts'' \<noteq> None
   \<and> (\<exists>r. getTemplateInstallPackage ''/home/u'' (Some ''@my/ts'') ''/home/u'' = Inr r)"
proof -
  have a: "''@my/ts'' \<noteq> []" "\<not> rx_test rx_file ''@my/ts''" "\<not> includes_str ''://'' ''@my/ts''"
    "\<not> rx_test rx_archive ''@my/ts''"
    by (simp_all add: rx_defs)
  have s: "\<exists>SCOPE. ''@my/'' = ''@'' @ SCOPE @ ''/'' \<and> SCOPE \<noteq> [] \<and> CHR ''/'' \<notin> set SCOPE"
    by (rule exI [of _ "''my''"]) simp
  have f: "\<exists>sc n ve. ''@my/ts'' = sc @ n @ ve
              \<and> (sc = [] \<or> (\<exists>SCOPE. sc = ''@'' @ SCOPE @ ''/'' \<and> SCOPE \<noteq> [] \<and> CHR ''/'' \<notin> set SCOPE))
              \<and> CHR ''@'' \<notin> set n
              \<and> (ve = [] \<or> (\<exists>VERSION. ve = ''@'' @ VERSION \<and> VERSION \<noteq> []
                               \<and> CHR 0x0A \<notin> set VERSION \<and> CHR 0x0D \<notin> set VERSION))"
  proof (intro exI conjI)
    show "''@my/ts'' = ''@my/'' @ ''ts'' @ []" by simp
    show "''@my/'' = [] \<or> (\<exists>SCOPE. ''@my/'' = ''@'' @ SCOPE @ ''/'' \<and> SCOPE \<noteq> []
            \<and> CHR ''/'' \<notin> set SCOPE)"
      using s by (rule disjI2)
    show "CHR ''@'' \<notin> set ''ts''" by simp
    show "[] = [] \<or> (\<exists>VERSION. [] = ''@'' @ VERSION \<and> VERSION \<noteq> []
            \<and> CHR 0x0A \<notin> set VERSION \<and> CHR 0x0D \<notin> set VERSION)"
      by simp
  qed
  show ?thesis
    using getTemplateInstallPackage_returns_iff_form [OF a, of "''/home/u''" "''/home/u''"] f a
    by (simp del: not_None_eq)
qed

section \<open>The frame of isSafeToCreateProjectIn\<close>

text \<open>
  Claim C10. When \<^verbatim>\<open>isSafeToCreateProjectIn\<close> returns \<^verbatim>\<open>false\<close> the world is
  unchanged. When it returns \<^verbatim>\<open>true\<close> the entries removed are exactly those whose
  name starts with \<^verbatim>\<open>npm-debug.log\<close>, \<^verbatim>\<open>yarn-error.log\<close> or \<^verbatim>\<open>yarn-debug.log\<close>;
  every other entry is kept.
\<close>

theorem isSafeToCreateProjectIn_frame:
  "isSafeToCreateProjectIn w = Return (ok, w') \<Longrightarrow>
     (if ok
      then files w' =
             map_option (filter (\<lambda>en. \<not> (prefix ''npm-debug.log'' (fst en)
                                        \<or> prefix ''yarn-error.log'' (fst en)
                                        \<or> prefix ''yarn-debug.log'' (fst en)))) (files w)
      else w' = w)"
  unfolding isSafeToCreateProjectIn_def readdirSync_def
  by (auto simp: files_fold_remove isErrorLog_iff Let_def split: option.splits if_splits intro!: filter_cong)

theorem isSafeToCreateProjectIn_frame_witness:
  "isSafeToCreateProjectIn
     \<lparr>files = Some [(''README.md'', Other), (''npm-debug.log.1'', Other)], effects = []\<rparr>
   = Return (True, \<lparr>files = Some [(''README.md'', Other)],
                     effects = [RemoveSync ''npm-debug.log.1'']\<rparr>)
   \<and> files \<lparr>files = Some [(''README.md'', Other)], effects = [RemoveSync ''npm-debug.log.1'']\<rparr>
       = map_option (filter (\<lambda>en. \<not> (prefix ''npm-debug.log'' (fst en)
                                        \<or> prefix ''yarn-error.log'' (fst en)
                                        \<or> prefix ''yarn-debug.log'' (fst en))))
          (files \<lparr>files = Some [(''README.md'', Other), (''npm-debug.log.1'', Other)],
                  effects = []\<rparr>)"
proof -
  have h: "isSafeToCreateProjectIn
          \<lparr>files = Some [(''README.md'', Other), (''npm-debug.log.1'', Other)], effects = []\<rparr>
        = Return (True, \<lparr>files = Some [(''README.md'', Other)],
                          effects = [RemoveSync ''npm-debug.log.1'']\<rparr>)"
    by (simp add: isSafeToCreateProjectIn_def readdirSync_def removeSync_def validFiles_def
          isErrorLog_iff rx_test_def rx_iml_def)
  show ?thesis
    using isSafeToCreateProjectIn_frame [OF h] h by simp
qed

end
